theory Spec2Isabelle
  imports Main "HOL-Library.Sublist"
begin

section \<open>Strings and lines\<close>

text \<open>
  A JavaScript string is modelled as a \<^typ>\<open>string\<close>: one \<^typ>\<open>char\<close> per code unit,
  for documents whose code units are below 256. A JavaScript \<open>number\<close> that holds a line
  index is an \<^typ>\<open>int\<close> (line numbers are whole numbers; \<open>-1\<close> is the "not found" value).
\<close>

text \<open>\<open>s.includes(t)\<close>: \<open>t\<close> occurs in \<open>s\<close> as a contiguous substring.\<close>

definition includes_str :: "string \<Rightarrow> string \<Rightarrow> bool" where
  "includes_str s t = sublist t s"

text \<open>
  Reading \<open>lines[i]\<close>: outside \<open>0 \<le> i < lines.length\<close> JavaScript yields \<open>undefined\<close>,
  and calling a method on \<open>undefined\<close> throws a \<open>TypeError\<close>.
\<close>

datatype error = TypeError

definition lineAt :: "string list \<Rightarrow> int \<Rightarrow> string option" where
  "lineAt lines i = (if 0 \<le> i \<and> i < int (length lines) then Some (lines ! nat i) else None)"

section \<open>Task Locator: \<open>findTaskInLines\<close>\<close>

text \<open>The test both branches of \<open>findTaskInLines\<close> apply to a line.\<close>

definition isTaskLine :: "string \<Rightarrow> string \<Rightarrow> bool" where
  "isTaskLine line description = (includes_str line description \<and> includes_str line ''- ['')"

text \<open>
  The scan \<open>for (let i = 0; i < lines.length; i++) { if (...) return i; }\<close> followed by
  \<open>return -1\<close>, started at loop counter \<open>i\<close>.
\<close>

function scanLines :: "string list \<Rightarrow> string \<Rightarrow> nat \<Rightarrow> int" where
  "scanLines lines description i =
     (if i < length lines
      then (if isTaskLine (lines ! i) description then int i
            else scanLines lines description (i + 1))
      else - 1)"
  by pat_completeness auto
termination
  by (relation "measure (\<lambda>(lines, description, i). length lines - i)") auto

declare scanLines.simps [simp del]

definition findTaskInLines :: "string list \<Rightarrow> string \<Rightarrow> int \<Rightarrow> error + int" where
  "findTaskInLines lines description startIndex =
     (if 0 \<le> startIndex \<and> startIndex < int (length lines)
      then (case lineAt lines startIndex of
              None \<Rightarrow> Inl TypeError
            | Some line \<Rightarrow>
                if isTaskLine line description then Inr startIndex
                else Inr (scanLines lines description 0))
      else Inr (scanLines lines description 0))"

section \<open>Interval Annotator: the two regular expressions\<close>

text \<open>
  \<open>\s\<close> of a JavaScript regular expression, on code units below 256: tab, line feed,
  vertical tab, form feed, carriage return, space and the no-break space.
\<close>

definition isSpace :: "char \<Rightarrow> bool" where
  "isSpace c = (c = CHR 0x09 \<or> c = CHR 0x0A \<or> c = CHR 0x0B \<or> c = CHR 0x0C
               \<or> c = CHR 0x0D \<or> c = CHR '' '' \<or> c = CHR 0xA0)"

text \<open>
  The annotation-line test \<open>/^\s*(\[clock::[^\]]+\]\s*)+$/.test(line)\<close>.

  \<open>clockToken s\<close> is one iteration of the group \<open>\[clock::[^\]]+\]\s*\<close> at the start of
  \<open>s\<close>: the literal \<open>[clock::\<close>, one or more characters other than \<open>]\<close>, a \<open>]\<close>, then
  whitespace; it returns the rest of the string. The class \<open>[^\]]\<close> cannot step over a
  \<open>]\<close>, so the body ends at the first \<open>]\<close>; whitespace is followed by \<open>[\<close> or the end of the
  string, neither of which is whitespace, so \<open>\s*\<close> takes all of it. No other way of
  matching exists, and the backtracking matcher accepts exactly what this recogniser accepts
  (\<open>isClockLine_lang\<close> below compares the recogniser with the language of the expression).
\<close>

definition clockToken :: "string \<Rightarrow> string option" where
  "clockToken s =
     (if prefix ''[clock::'' s
      then (let r = drop 8 s;
                body = takeWhile (\<lambda>c. c \<noteq> CHR '']'') r;
                rest = dropWhile (\<lambda>c. c \<noteq> CHR '']'') r
            in if body \<noteq> [] \<and> rest \<noteq> [] then Some (dropWhile isSpace (tl rest)) else None)
      else None)"

text \<open>\<open>(\[clock::[^\]]+\]\s*)+$\<close>: one or more tokens, up to the end of the string.\<close>

function clockTokens :: "string \<Rightarrow> bool" where
  "clockTokens s =
     (case clockToken s of
        None \<Rightarrow> False
      | Some rest \<Rightarrow> rest = [] \<or> clockTokens rest)"
  by pat_completeness auto
termination
proof (relation "measure length")
  show "wf (measure length)" by simp
next
  fix s rest :: string
  assume tok: "clockToken s = Some rest"
  have drop: "\<And>P (xs :: string). length (dropWhile P xs) \<le> length xs"
    by (simp add: length_dropWhile_le)
  from tok obtain r where r: "r = dropWhile (\<lambda>c. c \<noteq> CHR '']'') (drop 8 s)"
    "r \<noteq> []" "rest = dropWhile isSpace (tl r)" "prefix ''[clock::'' s"
    by (auto simp add: clockToken_def Let_def split: if_splits)
  have "length rest \<le> length (tl r)" unfolding r(3) by (rule drop)
  also have "\<dots> < length r" using r(2) by (cases r) simp_all
  also have "\<dots> \<le> length (drop 8 s)" unfolding r(1) by (rule drop)
  also have "\<dots> \<le> length s" by simp
  finally show "(rest, s) \<in> measure length" by simp
qed

declare clockTokens.simps [simp del]

definition isClockLine :: "string \<Rightarrow> bool" where
  "isClockLine line = clockTokens (dropWhile isSpace line)"

text \<open>
  The open-interval expression \<open>/\[clock::((?:(?!\]|--).)+)\]/\<close>.

  \<open>.\<close> matches every character but a line terminator (line feed and carriage return, on
  code units below 256). \<open>openBody s\<close> is the longest prefix of \<open>s\<close> that
  \<open>(?:(?!\]|--).)*\<close> can match: it stops before a \<open>]\<close>, before \<open>--\<close> and before a line
  terminator. The group must be followed by \<open>]\<close>, and no character of the body is a \<open>]\<close>,
  so giving characters back never helps: the expression matches at a position exactly when
  the longest body is not empty and a \<open>]\<close> follows it (\<open>openClockAt_iff\<close> below states the
  match without the scan).
\<close>

definition isLineTerminator :: "char \<Rightarrow> bool" where
  "isLineTerminator c = (c = CHR 0x0A \<or> c = CHR 0x0D)"

fun openBody :: "string \<Rightarrow> string" where
  "openBody [] = []"
| "openBody (c # cs) =
     (if c = CHR '']'' \<or> prefix ''--'' (c # cs) \<or> isLineTerminator c then []
      else c # openBody cs)"

text \<open>A match that starts at the first character of \<open>s\<close>: capture group 1 and the length
  of the whole match.\<close>

definition openClockAt :: "string \<Rightarrow> (string \<times> nat) option" where
  "openClockAt s =
     (if prefix ''[clock::'' s
      then (let body = openBody (drop 8 s)
            in if body \<noteq> [] \<and> prefix '']'' (drop (8 + length body) s)
               then Some (body, 8 + length body + 1) else None)
      else None)"

text \<open>
  \<open>regex.exec(line)\<close> with \<open>lastIndex = p\<close>: the leftmost match that starts at \<open>p\<close> or later,
  as (index, group 1, length of the match); positions up to \<open>line.length\<close> are tried.
\<close>

function execOpenClock :: "string \<Rightarrow> nat \<Rightarrow> (nat \<times> string \<times> nat) option" where
  "execOpenClock line p =
     (if length line < p then None
      else (case openClockAt (drop p line) of
              Some (g, n) \<Rightarrow> Some (p, g, n)
            | None \<Rightarrow> execOpenClock line (p + 1)))"
  by pat_completeness auto
termination
  by (relation "measure (\<lambda>(line, p). Suc (length line) - p)") auto

declare execOpenClock.simps [simp del]

text \<open>\<open>openClockRegex.test(line)\<close>: the expression has no \<open>g\<close> flag, the search starts at 0.\<close>

definition openClockTest :: "string \<Rightarrow> bool" where
  "openClockTest line = (execOpenClock line 0 \<noteq> None)"

text \<open>
  \<open>while ((match = regex.exec(line)) !== null) { lastMatch = match; }\<close> with the \<open>g\<close> flag:
  each search starts at \<open>lastIndex\<close>, the end of the previous match.
\<close>

function lastOpenMatch ::
  "string \<Rightarrow> nat \<Rightarrow> (nat \<times> string \<times> nat) option \<Rightarrow> (nat \<times> string \<times> nat) option"
where
  "lastOpenMatch line lastIndex lastMatch =
     (case execOpenClock line lastIndex of
        None \<Rightarrow> lastMatch
      | Some (i, g, n) \<Rightarrow> lastOpenMatch line (i + n) (Some (i, g, n)))"
  by pat_completeness auto
termination
proof (relation "measure (\<lambda>(line, p, lastMatch). Suc (length line) - p)")
  show "wf (measure (\<lambda>(line :: string, p :: nat, lastMatch :: (nat \<times> string \<times> nat) option).
                       Suc (length line) - p))"
    by simp
next
  fix line :: string and p :: nat and lastMatch :: "(nat \<times> string \<times> nat) option"
    and m :: "nat \<times> string \<times> nat" and i :: nat and y :: "string \<times> nat"
    and g :: string and n :: nat
  assume ex: "execOpenClock line p = Some m" and m: "(i, y) = m" and y: "(g, n) = y"
  have found: "\<And>q. execOpenClock line q = Some (i, g, n) \<Longrightarrow> q \<le> i \<and> i \<le> length line \<and> 0 < n"
  proof -
    fix q
    show "execOpenClock line q = Some (i, g, n) \<Longrightarrow> q \<le> i \<and> i \<le> length line \<and> 0 < n"
    proof (induction line q rule: execOpenClock.induct)
      case (1 line q)
      show ?case
      proof (cases "length line < q")
        case True
        with "1.prems" show ?thesis by (simp add: execOpenClock.simps)
      next
        case inb: False
        show ?thesis
        proof (cases "openClockAt (drop q line)")
          case None
          with inb "1.prems" have "execOpenClock line (q + 1) = Some (i, g, n)"
            by (simp add: execOpenClock.simps)
          from "1.IH" [OF inb None this] show ?thesis by simp
        next
          case (Some a)
          with inb "1.prems" have "a = (g, n)" "q = i"
            by (auto simp add: execOpenClock.simps split: prod.splits)
          moreover from Some \<open>a = (g, n)\<close> have "0 < n"
            by (auto simp add: openClockAt_def Let_def split: if_splits)
          ultimately show ?thesis using inb by simp
        qed
      qed
    qed
  qed
  from ex m y have "execOpenClock line p = Some (i, g, n)" by simp
  from found [OF this]
  show "((line, i + n, Some (i, g, n)), (line, p, lastMatch))
          \<in> measure (\<lambda>(line, p, lastMatch). Suc (length line) - p)"
    by auto
qed

declare lastOpenMatch.simps [simp del]

section \<open>Documents and tasks\<close>

text \<open>\<open>content.split('\n')\<close> and \<open>lines.join('\n')\<close>.\<close>

fun splitLines :: "string \<Rightarrow> string list" where
  "splitLines [] = [[]]"
| "splitLines (c # cs) =
     (if c = CHR 0x0A then [] # splitLines cs
      else (case splitLines cs of
              l # ls \<Rightarrow> (c # l) # ls
            | [] \<Rightarrow> [[c]]))"

fun joinLines :: "string list \<Rightarrow> string" where
  "joinLines [] = []"
| "joinLines [l] = l"
| "joinLines (l # l' # ls) = l @ CHR 0x0A # joinLines (l' # ls)"

text \<open>
  The vault: \<open>getAbstractFileByPath(path)\<close> followed by \<open>instanceof TFile\<close> and
  \<open>vault.read(file)\<close> is the lookup of the path; \<open>None\<close> stands for a path that is no
  file. \<open>vault.modify(file, text)\<close> is the update of the map. Reads and writes of an
  existing file succeed.
\<close>

type_synonym vault = "string \<rightharpoonup> string"

datatype TaskStatus = Todo | InProgress | Done | Cancelled

text \<open>
  The interfaces \<open>KanbanTask\<close> and \<open>KanbanColumnConfig\<close>. The field \<open>id\<close> is \<open>id_\<close> here and
  the field \<open>type\<close> of a column is \<open>colType\<close>; an optional field is an \<open>option\<close>.
\<close>

record KanbanTask =
  id_ :: string
  description :: string
  column :: string
  status :: TaskStatus
  sourcePath :: string
  lineNumber :: int
  priority :: "string option"
  tags :: "string list"
  dueDate :: "string option"
  isClockedIn :: bool
  startTime :: "string option"
  endTime :: "string option"

record KanbanColumnConfig =
  colType :: string
  name :: string
  color :: string
  symbol :: string

text \<open>The settings the modelled functions read.\<close>

record ClockKanbanSettings =
  autoClockInOut :: bool
  clockColumn :: string
  showCompletedTasks :: bool
  timeFormat :: string
  columns :: "KanbanColumnConfig list"

section \<open>Interval Annotator: \<open>manageClockProperty\<close>\<close>

datatype clockType = Start | End

text \<open>
  The \<open>start\<close> branch. \<open>skipClockLines\<close> is the loop
  \<open>while (insertIndex < lines.length && /.../.test(lines[insertIndex])) insertIndex++\<close>;
  \<open>lines.splice(insertIndex, 0, x)\<close> inserts \<open>x\<close> before position \<open>insertIndex\<close>.
\<close>

function skipClockLines :: "string list \<Rightarrow> nat \<Rightarrow> nat" where
  "skipClockLines lines insertIndex =
     (if insertIndex < length lines \<and> isClockLine (lines ! insertIndex)
      then skipClockLines lines (insertIndex + 1)
      else insertIndex)"
  by pat_completeness auto
termination
  by (relation "measure (\<lambda>(lines, insertIndex). length lines - insertIndex)") auto

declare skipClockLines.simps [simp del]

definition indentation :: string where
  "indentation = ''      ''"

definition manageClockStart :: "string list \<Rightarrow> nat \<Rightarrow> string \<Rightarrow> string list" where
  "manageClockStart lines currentLine timestamp =
     (let newClock = ''[clock::'' @ timestamp @ '']'';
          insertIndex = skipClockLines lines (currentLine + 1)
      in take insertIndex lines @ [indentation @ newClock] @ drop insertIndex lines)"

text \<open>
  The \<open>end\<close> branch. \<open>findLastOpenClock\<close> is the loop over the annotation lines below the
  task, with the loop variables \<open>searchIndex\<close> and \<open>lastOpenClockIndex\<close>.
\<close>

function findLastOpenClock :: "string list \<Rightarrow> nat \<Rightarrow> int \<Rightarrow> int" where
  "findLastOpenClock lines searchIndex lastOpenClockIndex =
     (if searchIndex < length lines \<and> isClockLine (lines ! searchIndex)
      then findLastOpenClock lines (searchIndex + 1)
             (if openClockTest (lines ! searchIndex) then int searchIndex
              else lastOpenClockIndex)
      else lastOpenClockIndex)"
  by pat_completeness auto
termination
  by (relation "measure (\<lambda>(lines, searchIndex, lastOpenClockIndex). length lines - searchIndex)")
     auto

declare findLastOpenClock.simps [simp del]

definition manageClockEnd :: "string list \<Rightarrow> nat \<Rightarrow> string \<Rightarrow> string list" where
  "manageClockEnd lines currentLine timestamp =
     (let lastOpenClockIndex = findLastOpenClock lines (currentLine + 1) (- 1)
      in if lastOpenClockIndex \<noteq> - 1
         then (let line = lines ! nat lastOpenClockIndex
               in case lastOpenMatch line 0 None of
                    None \<Rightarrow> lines
                  | Some (index, start, len) \<Rightarrow>
                      (let closedClock = ''[clock::'' @ start @ ''--'' @ timestamp @ '']'';
                           beforeText = take index line;
                           afterText = drop (index + len) line
                       in lines[nat lastOpenClockIndex := beforeText @ closedClock @ afterText]))
         else lines)"

text \<open>
  The action that \<open>manageClockProperty\<close> queues, on the vault and the task object. The
  \<open>timestamp\<close> is the value of \<open>moment().format('YYYY-MM-DDTHH:mm:ss')\<close> when the action
  runs. A path that is no file, a task that is not found and a caught exception leave the
  vault as it is; otherwise the whole document is written back.
\<close>

definition manageClockAction ::
  "clockType \<Rightarrow> string \<Rightarrow> vault \<times> KanbanTask \<Rightarrow> vault \<times> KanbanTask" where
  "manageClockAction type timestamp = (\<lambda>(vault, task).
     (case vault (sourcePath task) of
        None \<Rightarrow> (vault, task)
      | Some content \<Rightarrow>
          (let lines = splitLines content
           in case findTaskInLines lines (description task) (lineNumber task) of
                Inl e \<Rightarrow> (vault, task)
              | Inr currentLine \<Rightarrow>
                  if currentLine = - 1 then (vault, task)
                  else (let task' = task\<lparr>lineNumber := currentLine\<rparr>;
                            lines' = (case type of
                                        Start \<Rightarrow> manageClockStart lines (nat currentLine) timestamp
                                      | End \<Rightarrow> manageClockEnd lines (nat currentLine) timestamp)
                        in (vault(sourcePath task \<mapsto> joinLines lines'), task')))))"

section \<open>Status symbol rewrite: \<open>updateTaskStatus\<close>\<close>

text \<open>
  \<open>line.replace(/- \[([^\]])\]/, template)\<close> replaces the leftmost match of the checkbox
  expression. \<open>checkboxAt s\<close> is a match at the first character of \<open>s\<close>: \<open>- [\<close>, one
  character other than \<open>]\<close>, and \<open>]\<close>.
\<close>

definition checkboxAt :: "string \<Rightarrow> bool" where
  "checkboxAt s = (prefix ''- ['' s \<and> 5 \<le> length s \<and> s ! 3 \<noteq> CHR '']'' \<and> s ! 4 = CHR '']'')"

fun findCheckbox :: "string \<Rightarrow> nat option" where
  "findCheckbox [] = None"
| "findCheckbox (c # cs) =
     (if checkboxAt (c # cs) then Some 0 else map_option Suc (findCheckbox cs))"

definition isDigit :: "char \<Rightarrow> bool" where
  "isDigit c = (48 \<le> (of_char c :: nat) \<and> (of_char c :: nat) \<le> 57)"

definition digitValue :: "char \<Rightarrow> nat" where
  "digitValue c = (of_char c :: nat) - 48"

text \<open>
  The replacement text of \<open>String.prototype.replace\<close> for an expression with one capture
  group and no named group: \<open>$$\<close> is a dollar sign, \<open>$&\<close> the match, \<open>$`\<close> the text before
  it, \<open>$'\<close> the text after it, \<open>$1\<close> and \<open>$01\<close> the capture group; a two-digit reference
  above the number of groups is read as a one-digit reference followed by a digit, and
  every other \<open>$\<close> stands for itself.
\<close>

fun getSubstitution :: "string \<Rightarrow> string \<Rightarrow> string \<Rightarrow> string \<Rightarrow> string \<Rightarrow> string" where
  "getSubstitution matched beforeText afterText capture [] = []"
| "getSubstitution matched beforeText afterText capture [c] = [c]"
| "getSubstitution matched beforeText afterText capture (c # d # r) =
     (if c \<noteq> CHR ''$'' then c # getSubstitution matched beforeText afterText capture (d # r)
      else if d = CHR ''$'' then CHR ''$'' # getSubstitution matched beforeText afterText capture r
      else if d = CHR ''&'' then matched @ getSubstitution matched beforeText afterText capture r
      else if d = CHR 0x60 then beforeText @ getSubstitution matched beforeText afterText capture r
      else if d = CHR 0x27 then afterText @ getSubstitution matched beforeText afterText capture r
      else if isDigit d then
        (case r of
           e # r' \<Rightarrow>
             if isDigit e \<and> 10 * digitValue d + digitValue e \<le> 1
             then (if 10 * digitValue d + digitValue e = 1
                   then capture @ getSubstitution matched beforeText afterText capture r'
                   else c # d # e # getSubstitution matched beforeText afterText capture r')
             else (if digitValue d = 1
                   then capture @ getSubstitution matched beforeText afterText capture r
                   else c # d # getSubstitution matched beforeText afterText capture r)
         | [] \<Rightarrow>
             if digitValue d = 1 then capture else [c, d])
      else c # getSubstitution matched beforeText afterText capture (d # r))"

definition replaceCheckbox :: "string \<Rightarrow> string \<Rightarrow> string" where
  "replaceCheckbox line template =
     (case findCheckbox line of
        None \<Rightarrow> line
      | Some i \<Rightarrow>
          (let matched = take 5 (drop i line);
               beforeText = take i line;
               afterText = drop (i + 5) line;
               capture = [line ! (i + 3)]
           in beforeText @ getSubstitution matched beforeText afterText capture template @ afterText))"

text \<open>
  The action that \<open>updateTaskStatus\<close> queues. \<open>colConfig?.symbol || ' '\<close> is a space when
  no column has the name or its symbol is the empty string. The document is written only
  when the line changed.
\<close>

definition updateTaskStatusAction ::
  "ClockKanbanSettings \<Rightarrow> string \<Rightarrow> vault \<times> KanbanTask \<Rightarrow> vault \<times> KanbanTask" where
  "updateTaskStatusAction settings col = (\<lambda>(vault, task).
     (case vault (sourcePath task) of
        None \<Rightarrow> (vault, task)
      | Some content \<Rightarrow>
          (let lines = splitLines content
           in case findTaskInLines lines (description task) (lineNumber task) of
                Inl e \<Rightarrow> (vault, task)
              | Inr currentLine \<Rightarrow>
                  if currentLine = - 1 then (vault, task)
                  else (let task' = task\<lparr>lineNumber := currentLine\<rparr>;
                            line = lines ! nat currentLine;
                            newStatus = (case find (\<lambda>c. name c = col) (columns settings) of
                                           None \<Rightarrow> '' ''
                                         | Some colConfig \<Rightarrow>
                                             if symbol colConfig = [] then '' ''
                                             else symbol colConfig);
                            updatedLine = replaceCheckbox line (''- ['' @ newStatus @ '']'')
                        in if updatedLine \<noteq> line
                           then (vault(sourcePath task \<mapsto>
                                   joinLines (lines[nat currentLine := updatedLine])), task')
                           else (vault, task')))))"

section \<open>Task Ingestion: \<open>parseTasks\<close>, \<open>mapStatus\<close>, \<open>loadTasks\<close>\<close>

text \<open>
  A raw record of the task source is untyped in the source (\<open>any\<close>); every field may be
  absent. \<open>status\<close> is an object that may carry a \<open>symbol\<close>, a string, or absent.
\<close>

datatype rawStatus = StatusObject "string option" | StatusString string | StatusAbsent

record rawTask =
  raw_id :: "string option"
  raw_path :: "string option"
  raw_sourcePath :: "string option"
  raw_lineNumber :: "int option"
  raw_description :: "string option"
  raw_text :: "string option"
  raw_status :: rawStatus
  raw_priority :: "string option"
  raw_tags :: "string list option"
  raw_dueDate :: "string option"
  raw_isClockedIn :: "bool option"
  raw_startTime :: "string option"
  raw_endTime :: "string option"

text \<open>\<open>a || b\<close> on a string that may be absent: the empty string is falsy.\<close>

definition orElse :: "string option \<Rightarrow> string \<Rightarrow> string" where
  "orElse a b = (case a of None \<Rightarrow> b | Some x \<Rightarrow> if x = [] then b else x)"

text \<open>Decimal digits of a whole number, as a template literal prints it.\<close>

function showNat :: "nat \<Rightarrow> string" where
  "showNat n = (if n < 10 then [''0123456789'' ! n]
                else showNat (n div 10) @ [''0123456789'' ! (n mod 10)])"
  by pat_completeness auto
termination
  by (relation "measure (\<lambda>n. n)") auto

declare showNat.simps [simp del]

definition showInt :: "int \<Rightarrow> string" where
  "showInt i = (if i < 0 then CHR ''-'' # showNat (nat (- i)) else showNat (nat i))"

text \<open>
  \<open>toUpperCase\<close> and \<open>toLowerCase\<close> on the letters \<open>a\<close> to \<open>z\<close> and \<open>A\<close> to \<open>Z\<close>; other
  characters are left as they are. The source compares the results only with the literals
  \<open>X\<close>, \<open>/\<close>, \<open>-\<close>, a space and \<open>done\<close>, and no character outside these letters is mapped
  to a character of those literals, so the comparisons come out as in the source.
\<close>

definition toUpperChar :: "char \<Rightarrow> char" where
  "toUpperChar c =
     (case map_of (zip ''abcdefghijklmnopqrstuvwxyz'' ''ABCDEFGHIJKLMNOPQRSTUVWXYZ'') c of
        Some u \<Rightarrow> u
      | None \<Rightarrow> c)"

definition toLowerChar :: "char \<Rightarrow> char" where
  "toLowerChar c =
     (case map_of (zip ''ABCDEFGHIJKLMNOPQRSTUVWXYZ'' ''abcdefghijklmnopqrstuvwxyz'') c of
        Some l \<Rightarrow> l
      | None \<Rightarrow> c)"

definition toUpperCase :: "string \<Rightarrow> string" where
  "toUpperCase s = map toUpperChar s"

definition toLowerCase :: "string \<Rightarrow> string" where
  "toLowerCase s = map toLowerChar s"

text \<open>
  \<open>mapStatus\<close>, on a string argument (the only call passes a string): the \<open>switch\<close> on the
  upper-cased symbol, with the clock column's symbol looked up in the default branch.
\<close>

definition mapStatus :: "ClockKanbanSettings \<Rightarrow> string \<Rightarrow> TaskStatus" where
  "mapStatus settings symb =
     (let st = toUpperCase symb
      in if st = ''X'' then Done
         else if st = ''/'' then InProgress
         else if st = ''-'' then Cancelled
         else (case find (\<lambda>c. name c = clockColumn settings) (columns settings) of
                 None \<Rightarrow> Todo
               | Some clockCol \<Rightarrow> if symb = symbol clockCol then InProgress else Todo))"

text \<open>
  \<open>task.status?.symbol || (typeof task.status === 'string' ? task.status : ' ')\<close>.
\<close>

definition rawSymbol :: "rawTask \<Rightarrow> string" where
  "rawSymbol task =
     (case raw_status task of
        StatusObject s \<Rightarrow> orElse s '' ''
      | StatusString s \<Rightarrow> s
      | StatusAbsent \<Rightarrow> '' '')"

text \<open>
  The column that \<open>parseTasks\<close> gives a symbol: the name of the first column with that
  symbol; without one, the name of the first column, or \<open>TODO\<close> when there is no column or
  its name is empty; and for \<open>x\<close> and \<open>X\<close> without a column of that symbol, the name of the
  first column whose lower-cased name is \<open>done\<close>, when there is one.
\<close>

definition symbolToColumn :: "KanbanColumnConfig list \<Rightarrow> string \<Rightarrow> string" where
  "symbolToColumn cols symb =
     (let matchingCol = find (\<lambda>c. symbol c = symb) cols;
          col = (case matchingCol of
                   Some c \<Rightarrow> name c
                 | None \<Rightarrow> (case cols of
                               [] \<Rightarrow> ''TODO''
                             | c0 # rest \<Rightarrow> if name c0 = [] then ''TODO'' else name c0))
      in if matchingCol = None \<and> (symb = ''x'' \<or> symb = ''X'')
         then (case find (\<lambda>c. toLowerCase (name c) = ''done'') cols of
                 Some doneCol \<Rightarrow> name doneCol
               | None \<Rightarrow> col)
         else col)"

text \<open>
  The object that the \<open>map\<close> callback of \<open>parseTasks\<close> builds. The argument of \<open>mapStatus\<close>
  in the source is the identifier \<open>status\<close>, which the callback does not declare: it is
  the global \<open>window.status\<close>, a string of the host, here \<open>windowStatus\<close>.
\<close>

definition toKanbanTask ::
  "ClockKanbanSettings \<Rightarrow> string \<Rightarrow> rawTask \<Rightarrow> nat \<Rightarrow> KanbanTask" where
  "toKanbanTask settings windowStatus task index =
     (let symb = rawSymbol task;
          col = symbolToColumn (columns settings) symb;
          line = (case raw_lineNumber task of None \<Rightarrow> 0 | Some n \<Rightarrow> n)
      in \<lparr> id_ = orElse (raw_id task)
                   ((case raw_path task of None \<Rightarrow> ''undefined'' | Some p \<Rightarrow> p) @ ''-''
                    @ (if line = 0 then showNat index else showInt line)),
           description = orElse (raw_description task) (orElse (raw_text task) ''Untitled Task''),
           column = col,
           status = mapStatus settings windowStatus,
           sourcePath = orElse (raw_path task) (orElse (raw_sourcePath task) []),
           lineNumber = line,
           priority = raw_priority task,
           tags = (case raw_tags task of None \<Rightarrow> [] | Some ts \<Rightarrow> ts),
           dueDate = raw_dueDate task,
           isClockedIn = (raw_isClockedIn task = Some True \<or> col = clockColumn settings),
           startTime = raw_startTime task,
           endTime = raw_endTime task \<rparr>)"

text \<open>The \<open>filter\<close> callback of \<open>parseTasks\<close>.\<close>

definition keepTask :: "ClockKanbanSettings \<Rightarrow> KanbanTask \<Rightarrow> bool" where
  "keepTask settings task =
     (let isDone = (case find (\<lambda>c. name c = column task) (columns settings) of
                      None \<Rightarrow> False
                    | Some colConfig \<Rightarrow> symbol colConfig = ''x'' \<or> symbol colConfig = ''X'')
      in if \<not> showCompletedTasks settings \<and> isDone then False else True)"

definition parseTasks :: "ClockKanbanSettings \<Rightarrow> string \<Rightarrow> rawTask list \<Rightarrow> KanbanTask list" where
  "parseTasks settings windowStatus rawTasks =
     filter (keepTask settings)
       (map (\<lambda>(index, task). toKanbanTask settings windowStatus task index) (enumerate 0 rawTasks))"

text \<open>
  \<open>checkIfTaskIsClockedIn\<close>: the loop over the annotation lines below \<open>task.lineNumber\<close>
  returns at the first line on which the open-interval expression matches.
\<close>

function anyOpenClock :: "string list \<Rightarrow> nat \<Rightarrow> bool" where
  "anyOpenClock lines searchIndex =
     (if searchIndex < length lines \<and> isClockLine (lines ! searchIndex)
      then (if openClockTest (lines ! searchIndex) then True
            else anyOpenClock lines (searchIndex + 1))
      else False)"
  by pat_completeness auto
termination
  by (relation "measure (\<lambda>(lines, searchIndex). length lines - searchIndex)") auto

declare anyOpenClock.simps [simp del]

definition checkIfTaskIsClockedIn :: "vault \<Rightarrow> KanbanTask \<Rightarrow> bool" where
  "checkIfTaskIsClockedIn vault task =
     (case vault (sourcePath task) of
        None \<Rightarrow> False
      | Some content \<Rightarrow>
          (let lines = splitLines content
           in if lineNumber task < 0 \<or> int (length lines) \<le> lineNumber task then False
              else anyOpenClock lines (nat (lineNumber task) + 1)))"

text \<open>\<open>loadTasks\<close>, with the task source present: the parse and the second pass.\<close>

definition loadTasks ::
  "ClockKanbanSettings \<Rightarrow> string \<Rightarrow> vault \<Rightarrow> rawTask list \<Rightarrow> KanbanTask list" where
  "loadTasks settings windowStatus vault rawTasks =
     map (\<lambda>task. if checkIfTaskIsClockedIn vault task
                  then task\<lparr>isClockedIn := True, column := clockColumn settings\<rparr>
                  else task)
       (parseTasks settings windowStatus rawTasks)"

section \<open>Document Mutation Queue and Transition Controller\<close>

text \<open>
  One transition is modelled as it runs on its own: every caller awaits the promise that
  \<open>queueFileAction\<close> returns before it goes on, so the chain of the path is settled when
  an action is appended and the action runs to its end before the caller continues. The
  state keeps, for every path, the actions appended to its chain, in the order of the
  calls of \<open>queueFileAction\<close>. The source keeps only the tail promise of the chain; the
  list is the history of that tail. A queued closure is named by what it was built from.
\<close>

datatype fileAction = ClockEdit clockType | StatusEdit string

record world =
  vault :: vault
  modificationQueue :: "string \<Rightarrow> fileAction list"

definition queueFileAction ::
  "string \<Rightarrow> fileAction \<Rightarrow> (vault \<times> KanbanTask \<Rightarrow> vault \<times> KanbanTask)
     \<Rightarrow> world \<times> KanbanTask \<Rightarrow> world \<times> KanbanTask" where
  "queueFileAction path label action = (\<lambda>(w, task).
     (let (vault', task') = action (vault w, task)
      in (w\<lparr>vault := vault',
             modificationQueue := (modificationQueue w)(path := modificationQueue w path @ [label])\<rparr>,
          task')))"

definition manageClockProperty ::
  "clockType \<Rightarrow> string \<Rightarrow> world \<times> KanbanTask \<Rightarrow> world \<times> KanbanTask" where
  "manageClockProperty type timestamp = (\<lambda>(w, task).
     queueFileAction (sourcePath task) (ClockEdit type) (manageClockAction type timestamp) (w, task))"

definition updateTaskStatus ::
  "ClockKanbanSettings \<Rightarrow> string \<Rightarrow> world \<times> KanbanTask \<Rightarrow> world \<times> KanbanTask" where
  "updateTaskStatus settings col = (\<lambda>(w, task).
     queueFileAction (sourcePath task) (StatusEdit col) (updateTaskStatusAction settings col) (w, task))"

definition clockIn :: "ClockKanbanSettings \<Rightarrow> string \<Rightarrow> world \<times> KanbanTask \<Rightarrow> world \<times> KanbanTask" where
  "clockIn settings timestamp st =
     (if \<not> autoClockInOut settings then st else manageClockProperty Start timestamp st)"

definition clockOut :: "ClockKanbanSettings \<Rightarrow> string \<Rightarrow> world \<times> KanbanTask \<Rightarrow> world \<times> KanbanTask" where
  "clockOut settings timestamp st =
     (if \<not> autoClockInOut settings then st else manageClockProperty End timestamp st)"

text \<open>
  \<open>handleTaskMove\<close>. \<open>timestamp\<close> is the reading of the clock that the interval action
  formats, \<open>timeText\<close> is \<open>moment().format(settings.timeFormat)\<close>; at most one of the steps
  1 and 2 runs, so one reading of each serves both. Rendering and notices are left out.
\<close>

definition handleTaskMove ::
  "ClockKanbanSettings \<Rightarrow> string \<Rightarrow> string \<Rightarrow> string \<Rightarrow> string
     \<Rightarrow> world \<times> KanbanTask \<Rightarrow> world \<times> KanbanTask" where
  "handleTaskMove settings timestamp timeText sourceColumn targetColumn st =
     (let st1 = (if sourceColumn = clockColumn settings \<and> targetColumn \<noteq> clockColumn settings
                    \<and> autoClockInOut settings
                 then (let (w, task) = clockOut settings timestamp st
                       in (w, task\<lparr>isClockedIn := False, endTime := Some timeText\<rparr>))
                 else st);
          st2 = (if targetColumn = clockColumn settings \<and> sourceColumn \<noteq> clockColumn settings
                    \<and> autoClockInOut settings
                 then (let (w, task) = clockIn settings timestamp st1
                       in (w, task\<lparr>isClockedIn := True, startTime := Some timeText\<rparr>))
                 else st1);
          st3 = (let (w, task) = st2 in (w, task\<lparr>column := targetColumn\<rparr>))
      in updateTaskStatus settings targetColumn st3)"

section \<open>The annotation-line expression as a regular language\<close>

text \<open>
  Regular expressions with their languages, to compare the recogniser \<open>isClockLine\<close> with
  the expression \<open>^\s*(\[clock::[^\]]+\]\s*)+$\<close> itself: the test of an expression anchored
  at both ends holds exactly for the strings of its language.
\<close>

datatype rx = Cls "char \<Rightarrow> bool" | Lit string | Cat rx rx | Many0 rx | Many1 rx

inductive_set star :: "string set \<Rightarrow> string set" for A :: "string set" where
  star_empty: "[] \<in> star A"
| star_step: "u \<in> A \<Longrightarrow> v \<in> star A \<Longrightarrow> u @ v \<in> star A"

fun lang :: "rx \<Rightarrow> string set" where
  "lang (Cls P) = {[c] | c. P c}"
| "lang (Lit s) = {s}"
| "lang (Cat r s) = {u @ v | u v. u \<in> lang r \<and> v \<in> lang s}"
| "lang (Many0 r) = star (lang r)"
| "lang (Many1 r) = {u @ v | u v. u \<in> lang r \<and> v \<in> star (lang r)}"

definition clockTokenRx :: rx where
  "clockTokenRx =
     Cat (Lit ''[clock::'')
       (Cat (Many1 (Cls (\<lambda>c. c \<noteq> CHR '']''))) (Cat (Lit '']'') (Many0 (Cls isSpace))))"

definition clockLineRx :: rx where
  "clockLineRx = Cat (Many0 (Cls isSpace)) (Many1 clockTokenRx)"

section \<open>The annotation run, in the words of the specification\<close>

text \<open>
  The run of annotation lines that starts at index \<open>i\<close>: the lines from \<open>i\<close> on, up to
  the first line that is not an annotation-only line.
\<close>

definition annotationRun :: "string list \<Rightarrow> nat \<Rightarrow> string list" where
  "annotationRun lines i = takeWhile isClockLine (drop i lines)"

text \<open>
  A timestamp that can stand in an open token: not empty, free of \<open>]\<close>, of line
  terminators and of the separator \<open>--\<close>. Every value of
  \<open>moment().format('YYYY-MM-DDTHH:mm:ss')\<close> is of this kind.
\<close>

definition validStamp :: "string \<Rightarrow> bool" where
  "validStamp t = (t \<noteq> [] \<and> CHR '']'' \<notin> set t \<and> CHR 0x0A \<notin> set t \<and> CHR 0x0D \<notin> set t
                   \<and> \<not> sublist ''--'' t)"

text \<open>
  The shape of \<open>moment().format('YYYY-MM-DDTHH:mm:ss')\<close> for a year of four digits:
  nineteen characters, digits but for the separators.
\<close>

definition isoStamp :: "string \<Rightarrow> bool" where
  "isoStamp t =
     (case t of
        [y1, y2, y3, y4, a, m1, m2, b, d1, d2, c, h1, h2, e, n1, n2, f, s1, s2] \<Rightarrow>
          list_all isDigit [y1, y2, y3, y4, m1, m2, d1, d2, h1, h2, n1, n2, s1, s2]
          \<and> a = CHR ''-'' \<and> b = CHR ''-'' \<and> c = CHR ''T'' \<and> e = CHR '':'' \<and> f = CHR '':''
      | _ \<Rightarrow> False)"

text \<open>
  The line that the Task Locator resolves for a task in its live source document: the
  result of \<open>findTaskInLines\<close> on the lines of the document, for the task's description and
  its line-number hint, when the document exists and the task is found.
\<close>

definition resolvedLine :: "vault \<Rightarrow> KanbanTask \<Rightarrow> int option" where
  "resolvedLine V task =
     (case V (sourcePath task) of
        None \<Rightarrow> None
      | Some content \<Rightarrow>
          (case findTaskInLines (splitLines content) (description task) (lineNumber task) of
             Inl e \<Rightarrow> None
           | Inr r \<Rightarrow> if r = - 1 then None else Some r))"

text \<open>
  An open interval marker immediately below the task's resolved line: the line is
  resolvable, and a line of the annotation run that starts on the line after it matches
  the open-interval expression.
\<close>

definition openMarkerBelow :: "vault \<Rightarrow> KanbanTask \<Rightarrow> bool" where
  "openMarkerBelow V task =
     (case V (sourcePath task) of
        None \<Rightarrow> False
      | Some content \<Rightarrow>
          (case resolvedLine V task of
             None \<Rightarrow> False
           | Some r \<Rightarrow> list_ex openClockTest (annotationRun (splitLines content) (nat r + 1))))"

section \<open>Example configurations and records\<close>

definition mkColumn :: "string \<Rightarrow> string \<Rightarrow> KanbanColumnConfig" where
  "mkColumn n s = \<lparr>colType = n, name = n, color = ''#6b7280'', symbol = s\<rparr>"

definition mkSettings :: "KanbanColumnConfig list \<Rightarrow> ClockKanbanSettings" where
  "mkSettings cols =
     \<lparr>autoClockInOut = True, clockColumn = ''Working'', showCompletedTasks = False,
      timeFormat = ''HH:mm'', columns = cols\<rparr>"

text \<open>The four columns TODO, Working, Stopped and Done, with a symbol each.\<close>

definition boardColumns :: "KanbanColumnConfig list" where
  "boardColumns = [mkColumn ''TODO'' '' '', mkColumn ''Working'' ''/'',
                   mkColumn ''Stopped'' ''-'', mkColumn ''Done'' ''x'']"

text \<open>A board whose completion column is called Finished and carries the symbol \<open>X\<close>.\<close>

definition finishedColumns :: "KanbanColumnConfig list" where
  "finishedColumns = [mkColumn ''Backlog'' '' '', mkColumn ''Working'' ''/'',
                      mkColumn ''Finished'' ''X'']"

text \<open>A record of the task source for the task "Buy milk" on line 1 of \<open>f.md\<close>.\<close>

definition mkRaw :: "string \<Rightarrow> rawTask" where
  "mkRaw s =
     \<lparr>raw_id = None, raw_path = Some ''f.md'', raw_sourcePath = None, raw_lineNumber = Some 1,
      raw_description = Some ''Buy milk'', raw_text = None, raw_status = StatusObject (Some s),
      raw_priority = None, raw_tags = None, raw_dueDate = None, raw_isClockedIn = None,
      raw_startTime = None, raw_endTime = None\<rparr>"

text \<open>The note \<open>f.md\<close> with the task "Buy milk" on its second line, and that task.\<close>

definition noteVault :: vault where
  "noteVault = [''f.md'' \<mapsto> ''# Shopping\<newline>- [ ] Buy milk\<newline>Next paragraph'']"

definition milkTask :: KanbanTask where
  "milkTask = toKanbanTask (mkSettings boardColumns) [] (mkRaw '' '') 0"

text \<open>The same note after an interval was opened and closed below the task.\<close>

definition closedVault :: vault where
  "closedVault =
     [''f.md'' \<mapsto> ''# Shopping\<newline>- [ ] Buy milk\<newline>  [clock::09:00--09:30]\<newline>Next paragraph'']"

text \<open>The note with the task in the Working column and no interval below it, and the
  note with an open interval below the task.\<close>

definition workingVault :: vault where
  "workingVault = [''f.md'' \<mapsto> ''# Shopping\<newline>- [/] Buy milk\<newline>Next paragraph'']"

definition openVault :: vault where
  "openVault =
     [''f.md'' \<mapsto> ''# Shopping\<newline>- [ ] Buy milk\<newline>  [clock::09:00]\<newline>Next paragraph'']"

text \<open>The note with an open interval below the task, after a line was inserted at its top:
  the task and its interval are one line further down than the record's line number 1.\<close>

definition driftedVault :: vault where
  "driftedVault =
     [''f.md'' \<mapsto> ''Intro\<newline># Shopping\<newline>- [ ] Buy milk\<newline>  [clock::09:00]\<newline>Next paragraph'']"

text \<open>The plugin state with the note in the vault and no action queued.\<close>

definition noteWorld :: world where
  "noteWorld = \<lparr>vault = noteVault, modificationQueue = (\<lambda>path. [])\<rparr>"

section \<open>Properties of the Task Locator\<close>

lemma includes_str_iff: "includes_str s t \<longleftrightarrow> (\<exists>ps ss. s = ps @ t @ ss)"
  by (simp add: includes_str_def sublist_def)

lemma scanLines_cases:
  "(scanLines lines d i = - 1 \<and> (\<forall>j. i \<le> j \<and> j < length lines \<longrightarrow> \<not> isTaskLine (lines ! j) d))
   \<or> (\<exists>k. scanLines lines d i = int k \<and> i \<le> k \<and> k < length lines
          \<and> isTaskLine (lines ! k) d
          \<and> (\<forall>j. i \<le> j \<and> j < k \<longrightarrow> \<not> isTaskLine (lines ! j) d))"
proof (induction lines d i rule: scanLines.induct)
  case (1 lines d i)
  show ?case
  proof (cases "i < length lines")
    case False
    then have "scanLines lines d i = - 1" by (simp add: scanLines.simps)
    with False show ?thesis by auto
  next
    case inb: True
    show ?thesis
    proof (cases "isTaskLine (lines ! i) d")
      case True
      with inb have "scanLines lines d i = int i" by (simp add: scanLines.simps)
      with inb True show ?thesis by auto
    next
      case False
      with inb have eq: "scanLines lines d i = scanLines lines d (i + 1)"
        by (simp add: scanLines.simps)
      have nxt: "\<And>j. i \<le> j \<Longrightarrow> j \<noteq> i \<Longrightarrow> i + 1 \<le> j" by arith
      from "1.IH" [OF inb False] show ?thesis
      proof
        assume a: "scanLines lines d (i + 1) = - 1 \<and>
          (\<forall>j. i + 1 \<le> j \<and> j < length lines \<longrightarrow> \<not> isTaskLine (lines ! j) d)"
        have "\<forall>j. i \<le> j \<and> j < length lines \<longrightarrow> \<not> isTaskLine (lines ! j) d"
        proof (intro allI impI)
          fix j assume j: "i \<le> j \<and> j < length lines"
          show "\<not> isTaskLine (lines ! j) d"
          proof (cases "j = i")
            case True with False show ?thesis by simp
          next
            case False with j a nxt show ?thesis by simp
          qed
        qed
        with a eq show ?thesis by simp
      next
        assume "\<exists>k. scanLines lines d (i + 1) = int k \<and> i + 1 \<le> k \<and> k < length lines
          \<and> isTaskLine (lines ! k) d
          \<and> (\<forall>j. i + 1 \<le> j \<and> j < k \<longrightarrow> \<not> isTaskLine (lines ! j) d)"
        then obtain k where k: "scanLines lines d (i + 1) = int k" "i + 1 \<le> k"
          "k < length lines" "isTaskLine (lines ! k) d"
          "\<forall>j. i + 1 \<le> j \<and> j < k \<longrightarrow> \<not> isTaskLine (lines ! j) d" by blast
        have "\<forall>j. i \<le> j \<and> j < k \<longrightarrow> \<not> isTaskLine (lines ! j) d"
        proof (intro allI impI)
          fix j assume j: "i \<le> j \<and> j < k"
          show "\<not> isTaskLine (lines ! j) d"
          proof (cases "j = i")
            case True with False show ?thesis by simp
          next
            case False with j k(5) nxt show ?thesis by simp
          qed
        qed
        with k eq show ?thesis by auto
      qed
    qed
  qed
qed

lemma scanLines_range: "scanLines lines d 0 = - 1 \<or> (0 \<le> scanLines lines d 0 \<and> scanLines lines d 0 < int (length lines))"
  using scanLines_cases [of lines d 0] by auto

lemma findTaskInLines_Inr: "\<exists>r. findTaskInLines lines d s = Inr r"
  by (simp add: findTaskInLines_def lineAt_def)

text \<open>
  C3. The locator returns \<open>lastKnownIndex\<close> itself when that index is within bounds and its
  line contains the description and the task marker. Otherwise it returns the index of the
  first line of the document that contains both (no earlier line does), and when no line
  contains both it returns \<open>-1\<close>.
\<close>

theorem findTaskInLines_spec:
  "(0 \<le> s \<and> s < int (length lines) \<and> isTaskLine (lines ! nat s) d
      \<longrightarrow> findTaskInLines lines d s = Inr s)
   \<and> (\<not> (0 \<le> s \<and> s < int (length lines) \<and> isTaskLine (lines ! nat s) d)
      \<longrightarrow> (\<forall>k. k < length lines \<and> isTaskLine (lines ! k) d
                 \<and> (\<forall>j < k. \<not> isTaskLine (lines ! j) d)
               \<longrightarrow> findTaskInLines lines d s = Inr (int k))
        \<and> ((\<forall>j < length lines. \<not> isTaskLine (lines ! j) d)
               \<longrightarrow> findTaskInLines lines d s = Inr (- 1)))"
proof (intro conjI impI allI)
  assume "0 \<le> s \<and> s < int (length lines) \<and> isTaskLine (lines ! nat s) d"
  then show "findTaskInLines lines d s = Inr s"
    by (simp add: findTaskInLines_def lineAt_def)
next
  fix k
  assume miss: "\<not> (0 \<le> s \<and> s < int (length lines) \<and> isTaskLine (lines ! nat s) d)"
    and k: "k < length lines \<and> isTaskLine (lines ! k) d \<and> (\<forall>j < k. \<not> isTaskLine (lines ! j) d)"
  from miss have scan: "findTaskInLines lines d s = Inr (scanLines lines d 0)"
    by (auto simp add: findTaskInLines_def lineAt_def)
  from scanLines_cases [of lines d 0] k obtain k' where k':
    "scanLines lines d 0 = int k'" "k' < length lines" "isTaskLine (lines ! k') d"
    "\<forall>j. 0 \<le> j \<and> j < k' \<longrightarrow> \<not> isTaskLine (lines ! j) d" by auto
  have "k' = k"
  proof (rule ccontr)
    assume "k' \<noteq> k"
    then have "k' < k \<or> k < k'" by arith
    with k k' show False by auto
  qed
  with scan k' show "findTaskInLines lines d s = Inr (int k)" by simp
next
  assume miss: "\<not> (0 \<le> s \<and> s < int (length lines) \<and> isTaskLine (lines ! nat s) d)"
    and none: "\<forall>j < length lines. \<not> isTaskLine (lines ! j) d"
  from miss have scan: "findTaskInLines lines d s = Inr (scanLines lines d 0)"
    by (auto simp add: findTaskInLines_def lineAt_def)
  from scanLines_cases [of lines d 0] none have "scanLines lines d 0 = - 1" by auto
  with scan show "findTaskInLines lines d s = Inr (- 1)" by simp
qed

theorem findTaskInLines_spec_witness:
  "findTaskInLines [''# Notes'', ''- [ ] Buy milk'', ''  - [x] Buy milk again''] ''Buy milk'' 2 = Inr 2
   \<and> findTaskInLines [''# Notes'', ''- [ ] Buy milk'', ''  - [x] Buy milk again''] ''Buy milk'' 7 = Inr 1
   \<and> findTaskInLines [''# Notes'', ''- [ ] Buy milk'', ''  - [x] Buy milk again''] ''Pay rent'' 1 = Inr (- 1)"
proof -
  let ?L = "[''# Notes'', ''- [ ] Buy milk'', ''  - [x] Buy milk again'']"
  have fast: "0 \<le> (2::int) \<and> 2 < int (length ?L) \<and> isTaskLine (?L ! nat 2) ''Buy milk''"
    by (simp add: isTaskLine_def includes_str_def sublist_code)
  have first: "1 < length ?L \<and> isTaskLine (?L ! 1) ''Buy milk''
                 \<and> (\<forall>j < 1. \<not> isTaskLine (?L ! j) ''Buy milk'')"
    by (simp add: isTaskLine_def includes_str_def sublist_code)
  have miss7: "\<not> (0 \<le> (7::int) \<and> 7 < int (length ?L) \<and> isTaskLine (?L ! nat 7) ''Buy milk'')"
    by simp
  have none: "\<forall>j < length ?L. \<not> isTaskLine (?L ! j) ''Pay rent''"
    by (simp add: isTaskLine_def includes_str_def sublist_code All_less_Suc numeral_3_eq_3)
  have miss1: "\<not> (0 \<le> (1::int) \<and> 1 < int (length ?L) \<and> isTaskLine (?L ! nat 1) ''Pay rent'')"
    by (simp add: isTaskLine_def includes_str_def sublist_code)
  from findTaskInLines_spec [of 2 ?L "''Buy milk''"] fast
  have a: "findTaskInLines ?L ''Buy milk'' 2 = Inr 2" by blast
  from findTaskInLines_spec [of 7 ?L "''Buy milk''"] miss7 first
  have b: "findTaskInLines ?L ''Buy milk'' 7 = Inr (int 1)" by blast
  from findTaskInLines_spec [of 1 ?L "''Pay rent''"] miss1 none
  have c: "findTaskInLines ?L ''Pay rent'' 1 = Inr (- 1)" by blast
  from a b c show ?thesis by simp
qed

text \<open>
  C10. For every line list, description and start index, negative and out-of-bounds ones
  included, the locator returns a value (it never reads an undefined line), and the value is
  \<open>-1\<close> or an index within the document whose line contains the description and the marker
  \<open>- [\<close>.
\<close>

theorem findTaskInLines_total:
  "\<exists>r. findTaskInLines lines d s = Inr r
       \<and> (r = - 1 \<or> (0 \<le> r \<and> r < int (length lines)
                      \<and> includes_str (lines ! nat r) d \<and> includes_str (lines ! nat r) ''- [''))"
proof (cases "0 \<le> s \<and> s < int (length lines) \<and> isTaskLine (lines ! nat s) d")
  case True
  then have "findTaskInLines lines d s = Inr s"
    by (simp add: findTaskInLines_def lineAt_def)
  with True show ?thesis by (simp add: isTaskLine_def)
next
  case False
  then have scan: "findTaskInLines lines d s = Inr (scanLines lines d 0)"
    by (auto simp add: findTaskInLines_def lineAt_def)
  from scanLines_cases [of lines d 0] show ?thesis
  proof
    assume "scanLines lines d 0 = - 1 \<and>
      (\<forall>j. 0 \<le> j \<and> j < length lines \<longrightarrow> \<not> isTaskLine (lines ! j) d)"
    with scan show ?thesis by simp
  next
    assume "\<exists>k. scanLines lines d 0 = int k \<and> 0 \<le> k \<and> k < length lines
      \<and> isTaskLine (lines ! k) d \<and> (\<forall>j. 0 \<le> j \<and> j < k \<longrightarrow> \<not> isTaskLine (lines ! j) d)"
    then obtain k where "scanLines lines d 0 = int k" "k < length lines"
      "isTaskLine (lines ! k) d" by blast
    with scan show ?thesis by (simp add: isTaskLine_def)
  qed
qed

section \<open>Helper facts on \<open>find\<close>\<close>

lemma find_first:
  "i < length xs \<Longrightarrow> P (xs ! i) \<Longrightarrow> (\<forall>j < i. \<not> P (xs ! j)) \<Longrightarrow> find P xs = Some (xs ! i)"
  by (subst find_Some_iff) blast

lemma find_none: "(\<forall>x \<in> set xs. \<not> P x) \<Longrightarrow> find P xs = None"
  by (simp add: find_None_iff)

section \<open>Properties of the Status Mapper\<close>

text \<open>
  C6 (amended). The lookup returns the name of the first configured column whose symbol
  equals \<open>s\<close>. When no column has the symbol and \<open>s\<close> is \<open>x\<close> or \<open>X\<close>, it returns the name of
  the first column whose lower-cased name is \<open>done\<close>, if there is one. In every other case
  without a column of the symbol it returns the name of the first configured column, or
  the literal \<open>TODO\<close> when the column list is empty or that name is the empty string. It
  returns a column name for every symbol.
\<close>

theorem symbolToColumn_spec:
  "(\<forall>i. i < length cols \<and> symbol (cols ! i) = s \<and> (\<forall>j < i. symbol (cols ! j) \<noteq> s)
        \<longrightarrow> symbolToColumn cols s = name (cols ! i))
   \<and> ((\<forall>c \<in> set cols. symbol c \<noteq> s) \<and> (s = ''x'' \<or> s = ''X'')
        \<longrightarrow> (\<forall>i. i < length cols \<and> toLowerCase (name (cols ! i)) = ''done''
                    \<and> (\<forall>j < i. toLowerCase (name (cols ! j)) \<noteq> ''done'')
                  \<longrightarrow> symbolToColumn cols s = name (cols ! i)))
   \<and> ((\<forall>c \<in> set cols. symbol c \<noteq> s)
        \<and> \<not> ((s = ''x'' \<or> s = ''X'') \<and> (\<exists>c \<in> set cols. toLowerCase (name c) = ''done''))
        \<longrightarrow> symbolToColumn cols s
              = (if cols = [] \<or> name (hd cols) = [] then ''TODO'' else name (hd cols)))"
proof (intro conjI allI impI)
  fix i
  assume "i < length cols \<and> symbol (cols ! i) = s \<and> (\<forall>j < i. symbol (cols ! j) \<noteq> s)"
  then have "find (\<lambda>c. symbol c = s) cols = Some (cols ! i)"
    using find_first [of i cols "\<lambda>c. symbol c = s"] by simp
  then show "symbolToColumn cols s = name (cols ! i)"
    by (simp add: symbolToColumn_def)
next
  fix i
  assume a: "(\<forall>c \<in> set cols. symbol c \<noteq> s) \<and> (s = ''x'' \<or> s = ''X'')"
    and b: "i < length cols \<and> toLowerCase (name (cols ! i)) = ''done''
              \<and> (\<forall>j < i. toLowerCase (name (cols ! j)) \<noteq> ''done'')"
  from a have none: "find (\<lambda>c. symbol c = s) cols = None"
    using find_none [of cols "\<lambda>c. symbol c = s"] by simp
  from b have "find (\<lambda>c. toLowerCase (name c) = ''done'') cols = Some (cols ! i)"
    using find_first [of i cols "\<lambda>c. toLowerCase (name c) = ''done''"] by simp
  with none a show "symbolToColumn cols s = name (cols ! i)"
    by (simp add: symbolToColumn_def)
next
  assume a: "(\<forall>c \<in> set cols. symbol c \<noteq> s)
        \<and> \<not> ((s = ''x'' \<or> s = ''X'') \<and> (\<exists>c \<in> set cols. toLowerCase (name c) = ''done''))"
  then have none: "find (\<lambda>c. symbol c = s) cols = None"
    using find_none [of cols "\<lambda>c. symbol c = s"] by simp
  have fallback: "(s = ''x'' \<or> s = ''X'') \<Longrightarrow> find (\<lambda>c. toLowerCase (name c) = ''done'') cols = None"
    using a find_none [of cols "\<lambda>c. toLowerCase (name c) = ''done''"] by blast
  show "symbolToColumn cols s = (if cols = [] \<or> name (hd cols) = [] then ''TODO'' else name (hd cols))"
  proof (cases "s = ''x'' \<or> s = ''X''")
    case True
    with none fallback show ?thesis
      by (cases cols) (simp_all add: symbolToColumn_def)
  next
    case False
    with none show ?thesis
      by (cases cols) (simp_all add: symbolToColumn_def)
  qed
qed

text \<open>
  The claim as written fails where the first column has an empty name, and where there is
  no column: the result \<open>TODO\<close> is not the first configured column.
\<close>

theorem symbolToColumn_counterexample:
  "symbolToColumn [mkColumn '''' '' ''] ''q'' = ''TODO''
   \<and> name (hd [mkColumn '''' '' '']) \<noteq> ''TODO''
   \<and> symbolToColumn [] ''q'' = ''TODO''"
  by (simp add: symbolToColumn_def mkColumn_def)

theorem symbolToColumn_spec_witness:
  "symbolToColumn boardColumns ''/'' = ''Working''
   \<and> symbolToColumn boardColumns ''X'' = ''Done''
   \<and> symbolToColumn boardColumns ''q'' = ''TODO''"
proof -
  have one: "1 < length boardColumns \<and> symbol (boardColumns ! 1) = ''/''
               \<and> (\<forall>j < 1. symbol (boardColumns ! j) \<noteq> ''/'')"
    by (simp add: boardColumns_def mkColumn_def)
  have noX: "\<forall>c \<in> set boardColumns. symbol c \<noteq> ''X''"
    by (simp add: boardColumns_def mkColumn_def)
  have doneAt: "3 < length boardColumns \<and> toLowerCase (name (boardColumns ! 3)) = ''done''
               \<and> (\<forall>j < 3. toLowerCase (name (boardColumns ! j)) \<noteq> ''done'')"
    by (simp add: boardColumns_def mkColumn_def toLowerCase_def toLowerChar_def
          All_less_Suc numeral_3_eq_3)
  have noQ: "(\<forall>c \<in> set boardColumns. symbol c \<noteq> ''q'')
        \<and> \<not> ((''q'' = ''x'' \<or> ''q'' = ''X'') \<and> (\<exists>c \<in> set boardColumns. toLowerCase (name c) = ''done''))"
    by (simp add: boardColumns_def mkColumn_def)
  have hdName: "(if boardColumns = [] \<or> name (hd boardColumns) = [] then ''TODO''
                 else name (hd boardColumns)) = ''TODO''"
    by (simp add: boardColumns_def mkColumn_def)
  have nm: "name (boardColumns ! 1) = ''Working''" "name (boardColumns ! 3) = ''Done''"
    by (simp_all add: boardColumns_def mkColumn_def)
  from symbolToColumn_spec [of boardColumns "''/''"] one
  have a: "symbolToColumn boardColumns ''/'' = name (boardColumns ! 1)" by blast
  from symbolToColumn_spec [of boardColumns "''X''"] noX doneAt
  have b: "symbolToColumn boardColumns ''X'' = name (boardColumns ! 3)" by blast
  from symbolToColumn_spec [of boardColumns "''q''"] noQ hdName
  have c: "symbolToColumn boardColumns ''q'' = ''TODO''" by simp
  from a b c nm show ?thesis by simp
qed



section \<open>Properties of Task Ingestion\<close>

lemma firstNamed_unique:
  "i < length cs \<Longrightarrow> P (cs ! i) \<Longrightarrow> (\<forall>j < i. \<not> P (cs ! j)) \<Longrightarrow>
   i' < length cs \<Longrightarrow> P (cs ! i') \<Longrightarrow> (\<forall>j < i'. \<not> P (cs ! j)) \<Longrightarrow> i' = i"
proof (rule ccontr)
  assume a: "i < length cs" "P (cs ! i)" "\<forall>j < i. \<not> P (cs ! j)"
    "i' < length cs" "P (cs ! i')" "\<forall>j < i'. \<not> P (cs ! j)" and ne: "i' \<noteq> i"
  from ne have "i' < i \<or> i < i'" by arith
  then show False
  proof
    assume "i' < i" with a(3) a(5) show False by blast
  next
    assume "i < i'" with a(6) a(2) show False by blast
  qed
qed

lemma keepTask_iff:
  "keepTask S t \<longleftrightarrow>
     (showCompletedTasks S
      \<or> \<not> (\<exists>i < length (columns S). name (columns S ! i) = column t
               \<and> (\<forall>j < i. name (columns S ! j) \<noteq> column t)
               \<and> (symbol (columns S ! i) = ''x'' \<or> symbol (columns S ! i) = ''X'')))"
  (is "_ \<longleftrightarrow> (_ \<or> \<not> ?doneCol)")
proof (cases "find (\<lambda>c. name c = column t) (columns S)")
  case None
  then have "\<forall>c \<in> set (columns S). name c \<noteq> column t"
    by (simp add: find_None_iff)
  then have "\<not> ?doneCol" by auto
  moreover from None have "keepTask S t" by (simp add: keepTask_def)
  ultimately show ?thesis by blast
next
  case (Some c)
  then obtain i where i: "i < length (columns S)" "name (columns S ! i) = column t"
    "c = columns S ! i" "\<forall>j < i. name (columns S ! j) \<noteq> column t"
    unfolding find_Some_iff by blast
  have kt: "keepTask S t \<longleftrightarrow> (showCompletedTasks S \<or> \<not> (symbol c = ''x'' \<or> symbol c = ''X''))"
    using Some by (simp add: keepTask_def)
  have dc: "?doneCol \<longleftrightarrow> (symbol c = ''x'' \<or> symbol c = ''X'')"
  proof
    assume ?doneCol
    then obtain i' where i': "i' < length (columns S)" "name (columns S ! i') = column t"
      "\<forall>j < i'. name (columns S ! j) \<noteq> column t"
      "symbol (columns S ! i') = ''x'' \<or> symbol (columns S ! i') = ''X''" by blast
    have "i' = i"
      using firstNamed_unique [of i "columns S" "\<lambda>c. name c = column t" i'] i i' by blast
    with i' i(3) show "symbol c = ''x'' \<or> symbol c = ''X''" by simp
  next
    assume "symbol c = ''x'' \<or> symbol c = ''X''"
    with i show ?doneCol by blast
  qed
  from kt dc show ?thesis by simp
qed


text \<open>
  C7 (amended). A task that \<open>parseTasks\<close> builds from a raw record is in its output exactly
  when \<open>showCompletedTasks\<close> is on, or the first configured column that has the name of the
  task's column does not carry the symbol \<open>x\<close> or \<open>X\<close> (in particular when no configured
  column has that name). The test reads the symbol of the task's column, not the task's
  status.
\<close>

theorem parseTasks_filter:
  "t \<in> set (parseTasks S w raws) \<longleftrightarrow>
     (\<exists>k < length raws. t = toKanbanTask S w (raws ! k) k)
     \<and> (showCompletedTasks S
        \<or> \<not> (\<exists>i < length (columns S). name (columns S ! i) = column t
                 \<and> (\<forall>j < i. name (columns S ! j) \<noteq> column t)
                 \<and> (symbol (columns S ! i) = ''x'' \<or> symbol (columns S ! i) = ''X'')))"
proof -
  have "(\<exists>p \<in> set (enumerate 0 raws). t = toKanbanTask S w (snd p) (fst p))
          \<longleftrightarrow> (\<exists>k < length raws. t = toKanbanTask S w (raws ! k) k)"
  proof
    assume "\<exists>p \<in> set (enumerate 0 raws). t = toKanbanTask S w (snd p) (fst p)"
    then obtain p where "p \<in> set (enumerate 0 raws)" "t = toKanbanTask S w (snd p) (fst p)"
      by blast
    then have "fst p < length raws \<and> t = toKanbanTask S w (raws ! fst p) (fst p)"
      by (simp add: in_set_enumerate_eq)
    then show "\<exists>k < length raws. t = toKanbanTask S w (raws ! k) k" by blast
  next
    assume "\<exists>k < length raws. t = toKanbanTask S w (raws ! k) k"
    then obtain k where k: "k < length raws" "t = toKanbanTask S w (raws ! k) k" by blast
    then have "(k, raws ! k) \<in> set (enumerate 0 raws)"
      by (simp add: in_set_enumerate_eq)
    with k(2) show "\<exists>p \<in> set (enumerate 0 raws). t = toKanbanTask S w (snd p) (fst p)"
      by force
  qed
  then have "t \<in> set (parseTasks S w raws) \<longleftrightarrow>
     (\<exists>k < length raws. t = toKanbanTask S w (raws ! k) k) \<and> keepTask S t"
    by (auto simp add: parseTasks_def split_def)
  then show ?thesis by (simp only: keepTask_iff)
qed

lemma toUpperCase_X: "toUpperCase s = ''X'' \<longleftrightarrow> s = ''x'' \<or> s = ''X''"
proof (cases s)
  case Nil
  then show ?thesis by (simp add: toUpperCase_def)
next
  case (Cons c cs)
  have "toUpperChar c = CHR ''X'' \<longleftrightarrow> c = CHR ''x'' \<or> c = CHR ''X''"
    by (auto simp add: toUpperChar_def split: if_splits)
  with Cons show ?thesis by (auto simp add: toUpperCase_def)
qed

lemma toUpperCase_plain:
  "toUpperCase s = ''/'' \<longleftrightarrow> s = ''/''" "toUpperCase s = ''-'' \<longleftrightarrow> s = ''-''"
proof -
  have a: "\<And>c. toUpperChar c = CHR ''/'' \<longleftrightarrow> c = CHR ''/''"
    by (auto simp add: toUpperChar_def split: if_splits)
  have b: "\<And>c. toUpperChar c = CHR ''-'' \<longleftrightarrow> c = CHR ''-''"
    by (auto simp add: toUpperChar_def split: if_splits)
  show "toUpperCase s = ''/'' \<longleftrightarrow> s = ''/''"
    using a by (cases s) (auto simp add: toUpperCase_def)
  show "toUpperCase s = ''-'' \<longleftrightarrow> s = ''-''"
    using b by (cases s) (auto simp add: toUpperCase_def)
qed

lemma mapStatus_of_symbol:
  "mapStatus S s =
     (if s = ''x'' \<or> s = ''X'' then Done
      else if s = ''/'' then InProgress
      else if s = ''-'' then Cancelled
      else (case find (\<lambda>c. name c = clockColumn S) (columns S) of
              None \<Rightarrow> Todo
            | Some clockCol \<Rightarrow> if s = symbol clockCol then InProgress else Todo))"
  by (simp add: mapStatus_def toUpperCase_X toUpperCase_plain)

lemma toKanbanTask_status: "status (toKanbanTask S w r k) = mapStatus S w"
  by (simp add: toKanbanTask_def Let_def)

lemma toKanbanTask_column: "column (toKanbanTask S w r k) = symbolToColumn (columns S) (rawSymbol r)"
  by (simp add: toKanbanTask_def Let_def)

lemma mapStatus_x: "mapStatus S ''x'' = Done"
  by (simp add: mapStatus_def toUpperCase_def toUpperChar_def)

text \<open>
  The claim as written fails on a board whose completion column is named Finished and has
  the symbol \<open>X\<close>: a record with the symbol \<open>x\<close> has the status done (also when \<open>mapStatus\<close>
  is given the record's own symbol), lands in the first column, and is kept although
  \<open>showCompletedTasks\<close> is off.
\<close>

theorem parseTasks_filter_counterexample:
  "status (toKanbanTask (mkSettings finishedColumns) ''x'' (mkRaw ''x'') 0) = Done
   \<and> mapStatus (mkSettings finishedColumns) (rawSymbol (mkRaw ''x'')) = Done
   \<and> \<not> showCompletedTasks (mkSettings finishedColumns)
   \<and> parseTasks (mkSettings finishedColumns) ''x'' [mkRaw ''x'']
       = [toKanbanTask (mkSettings finishedColumns) ''x'' (mkRaw ''x'') 0]"
proof -
  have sym: "rawSymbol (mkRaw ''x'') = ''x''"
    by (simp add: rawSymbol_def mkRaw_def orElse_def)
  have col: "symbolToColumn finishedColumns ''x'' = ''Backlog''"
    by (simp add: symbolToColumn_def finishedColumns_def mkColumn_def toLowerCase_def toLowerChar_def)
  have keep: "keepTask (mkSettings finishedColumns)
                (toKanbanTask (mkSettings finishedColumns) ''x'' (mkRaw ''x'') 0)"
    by (simp add: keepTask_def toKanbanTask_column sym mkSettings_def col)
       (simp add: finishedColumns_def mkColumn_def)
  have flag: "\<not> showCompletedTasks (mkSettings finishedColumns)"
    by (simp add: mkSettings_def)
  from keep have "parseTasks (mkSettings finishedColumns) ''x'' [mkRaw ''x'']
       = [toKanbanTask (mkSettings finishedColumns) ''x'' (mkRaw ''x'') 0]"
    by (simp add: parseTasks_def enumerate_eq_zip)
  with flag sym show ?thesis by (simp add: toKanbanTask_status mapStatus_x)
qed


theorem parseTasks_filter_witness:
  "toKanbanTask (mkSettings boardColumns) [] (mkRaw '' '') 1
     \<in> set (parseTasks (mkSettings boardColumns) [] [mkRaw ''x'', mkRaw '' ''])
   \<and> toKanbanTask (mkSettings boardColumns) [] (mkRaw ''x'') 0
     \<notin> set (parseTasks (mkSettings boardColumns) [] [mkRaw ''x'', mkRaw '' ''])"
proof -
  let ?S = "mkSettings boardColumns"
  let ?raws = "[mkRaw ''x'', mkRaw '' '']"
  have cols: "columns ?S = boardColumns" "\<not> showCompletedTasks ?S"
    by (simp_all add: mkSettings_def)
  have c1: "column (toKanbanTask ?S [] (mkRaw '' '') 1) = ''TODO''"
    by (simp add: toKanbanTask_column cols rawSymbol_def mkRaw_def orElse_def)
       (simp add: symbolToColumn_def boardColumns_def mkColumn_def)
  have c0: "column (toKanbanTask ?S [] (mkRaw ''x'') 0) = ''Done''"
    by (simp add: toKanbanTask_column cols rawSymbol_def mkRaw_def orElse_def)
       (simp add: symbolToColumn_def boardColumns_def mkColumn_def)
  have k1: "\<exists>k < length ?raws. toKanbanTask ?S [] (mkRaw '' '') 1 = toKanbanTask ?S [] (?raws ! k) k"
    by (rule exI [of _ 1]) simp
  have todo: "\<not> (\<exists>i < length boardColumns. name (boardColumns ! i) = ''TODO''
               \<and> (\<forall>j < i. name (boardColumns ! j) \<noteq> ''TODO'')
               \<and> (symbol (boardColumns ! i) = ''x'' \<or> symbol (boardColumns ! i) = ''X''))"
    by (simp add: boardColumns_def mkColumn_def Ex_less_Suc eval_nat_numeral)
  have dn: "\<exists>i < length boardColumns. name (boardColumns ! i) = ''Done''
               \<and> (\<forall>j < i. name (boardColumns ! j) \<noteq> ''Done'')
               \<and> (symbol (boardColumns ! i) = ''x'' \<or> symbol (boardColumns ! i) = ''X'')"
    by (rule exI [of _ 3]) (simp add: boardColumns_def mkColumn_def All_less_Suc numeral_3_eq_3)
  from parseTasks_filter [of "toKanbanTask ?S [] (mkRaw '' '') 1" ?S "[]" ?raws] k1 todo
  have a: "toKanbanTask ?S [] (mkRaw '' '') 1 \<in> set (parseTasks ?S [] ?raws)"
    by (simp only: c1 cols) blast
  from parseTasks_filter [of "toKanbanTask ?S [] (mkRaw ''x'') 0" ?S "[]" ?raws] dn
  have b: "toKanbanTask ?S [] (mkRaw ''x'') 0 \<notin> set (parseTasks ?S [] ?raws)"
    by (simp only: c0 cols) blast
  from a b show ?thesis by simp
qed


text \<open>
  C8. The claim derives the status of an ingested task from the status symbol of its
  record: \<open>x\<close> and \<open>X\<close> give done. \<open>parseTasks\<close> calls \<open>mapStatus\<close> on the global
  \<open>status\<close> instead (\<open>toKanbanTask_status\<close>). With the host's default, the empty string, a
  record with the symbol \<open>x\<close> receives the status todo, while \<open>mapStatus\<close> on the symbol
  itself gives done (\<open>mapStatus_of_symbol\<close> is the mapping that \<open>mapStatus\<close> computes).
\<close>

theorem toKanbanTask_status_failing:
  "rawSymbol (mkRaw ''x'') = ''x''
   \<and> mapStatus (mkSettings boardColumns) ''x'' = Done
   \<and> status (toKanbanTask (mkSettings boardColumns) [] (mkRaw ''x'') 0) = Todo"
proof -
  have sym: "rawSymbol (mkRaw ''x'') = ''x''"
    by (simp add: rawSymbol_def mkRaw_def orElse_def)
  have clk: "find (\<lambda>c. name c = clockColumn (mkSettings boardColumns)) (columns (mkSettings boardColumns))
               = Some (mkColumn ''Working'' ''/'')"
    by (simp add: mkSettings_def boardColumns_def mkColumn_def)
  have "mapStatus (mkSettings boardColumns) [] = Todo"
    by (simp add: mapStatus_def toUpperCase_def clk) (simp add: mkColumn_def)
  with sym show ?thesis by (simp add: toKanbanTask_status mapStatus_x)
qed



section \<open>Properties of the Interval Annotator\<close>

lemma splitLines_nonempty: "splitLines c \<noteq> []"
  by (induction c) (auto split: list.splits)

lemma joinLines_splitLines: "joinLines (splitLines c) = c"
proof (induction c)
  case Nil
  show ?case by simp
next
  case (Cons a c)
  obtain l ls where sp: "splitLines c = l # ls"
    using splitLines_nonempty [of c] by (cases "splitLines c") auto
  show ?case
  proof (cases "a = CHR 0x0A")
    case True
    with Cons sp show ?thesis by simp
  next
    case False
    with Cons sp show ?thesis by (cases ls) auto
  qed
qed

lemma splitLines_no_newline: "l \<in> set (splitLines c) \<Longrightarrow> CHR 0x0A \<notin> set l"
proof (induction c arbitrary: l)
  case Nil
  then show ?case by simp
next
  case (Cons a c)
  obtain l' ls where sp: "splitLines c = l' # ls"
    using splitLines_nonempty [of c] by (cases "splitLines c") auto
  show ?case
  proof (cases "a = CHR 0x0A")
    case True
    with Cons show ?thesis by auto
  next
    case False
    with Cons.prems sp have "l = a # l' \<or> l \<in> set ls" by auto
    then show ?thesis
    proof
      assume "l = a # l'"
      moreover have "CHR 0x0A \<notin> set l'" using Cons.IH [of l'] sp by simp
      ultimately show ?thesis using False by auto
    next
      assume "l \<in> set ls"
      then show ?thesis using Cons.IH [of l] sp by simp
    qed
  qed
qed

lemma splitLines_line: "CHR 0x0A \<notin> set l \<Longrightarrow> splitLines (l @ CHR 0x0A # c) = l # splitLines c"
  by (induction l) auto

lemma splitLines_single: "CHR 0x0A \<notin> set l \<Longrightarrow> splitLines l = [l]"
  by (induction l) auto

lemma splitLines_joinLines:
  "ls \<noteq> [] \<Longrightarrow> (\<forall>l \<in> set ls. CHR 0x0A \<notin> set l) \<Longrightarrow> splitLines (joinLines ls) = ls"
proof (induction ls rule: joinLines.induct)
  case 1
  then show ?case by simp
next
  case (2 l)
  then show ?case by (simp add: splitLines_single)
next
  case (3 l l' ls)
  then show ?case by (simp add: splitLines_line)
qed

lemma findLastOpenClock_none:
  "(\<forall>l \<in> set (annotationRun lines s). \<not> openClockTest l) \<Longrightarrow> findLastOpenClock lines s lst = lst"
proof (induction lines s lst rule: findLastOpenClock.induct)
  case (1 lines s lst)
  show ?case
  proof (cases "s < length lines \<and> isClockLine (lines ! s)")
    case False
    then show ?thesis by (subst findLastOpenClock.simps) auto
  next
    case True
    then have run: "annotationRun lines s = lines ! s # annotationRun lines (s + 1)"
      by (simp add: annotationRun_def Cons_nth_drop_Suc [symmetric])
    with "1.prems" have no: "\<not> openClockTest (lines ! s)"
      and rest: "\<forall>l \<in> set (annotationRun lines (s + 1)). \<not> openClockTest l" by simp_all
    from True no have "findLastOpenClock lines s lst = findLastOpenClock lines (s + 1) lst"
      by (subst findLastOpenClock.simps) simp
    also have "\<dots> = lst"
      using "1.IH" [OF True] no rest by simp
    finally show ?thesis .
  qed
qed

lemma anyOpenClock_iff:
  "anyOpenClock lines s \<longleftrightarrow> (\<exists>l \<in> set (annotationRun lines s). openClockTest l)"
proof (induction lines s rule: anyOpenClock.induct)
  case (1 lines s)
  show ?case
  proof (cases "s < length lines \<and> isClockLine (lines ! s)")
    case False
    then have "annotationRun lines s = []"
      by (cases "s < length lines") (simp_all add: annotationRun_def Cons_nth_drop_Suc [symmetric])
    with False show ?thesis by (subst anyOpenClock.simps) auto
  next
    case True
    then have run: "annotationRun lines s = lines ! s # annotationRun lines (s + 1)"
      by (simp add: annotationRun_def Cons_nth_drop_Suc [symmetric])
    show ?thesis
    proof (cases "openClockTest (lines ! s)")
      case isOpen: True
      with True have "anyOpenClock lines s" by (subst anyOpenClock.simps) simp
      with isOpen run show ?thesis by simp
    next
      case notOpen: False
      with True have "anyOpenClock lines s = anyOpenClock lines (s + 1)"
        by (subst anyOpenClock.simps) simp
      with "1.IH" [OF True notOpen] run notOpen show ?thesis by simp
    qed
  qed
qed

lemma manageClockEnd_none:
  "(\<forall>l \<in> set (annotationRun lines (i + 1)). \<not> openClockTest l) \<Longrightarrow> manageClockEnd lines i t = lines"
  by (simp add: manageClockEnd_def findLastOpenClock_none)



lemma isSpace_indentation: "dropWhile isSpace (indentation @ CHR ''['' # s) = CHR ''['' # s"
  by (simp add: indentation_def isSpace_def)

lemma clockToken_closed:
  "b \<noteq> [] \<Longrightarrow> CHR '']'' \<notin> set b \<Longrightarrow> clockToken (''[clock::'' @ b @ '']'' @ r) = Some (dropWhile isSpace r)"
proof -
  assume b: "b \<noteq> []" "CHR '']'' \<notin> set b"
  have tw: "takeWhile (\<lambda>c. c \<noteq> CHR '']'') (b @ '']'' @ r) = b"
    using b(2) by (induction b) auto
  have dw: "dropWhile (\<lambda>c. c \<noteq> CHR '']'') (b @ '']'' @ r) = '']'' @ r"
    using b(2) by (induction b) auto
  show ?thesis using b(1) tw dw by (simp add: clockToken_def)
qed

lemma isClockLine_new:
  "b \<noteq> [] \<Longrightarrow> CHR '']'' \<notin> set b \<Longrightarrow> isClockLine (indentation @ ''[clock::'' @ b @ '']'')"
proof -
  assume b: "b \<noteq> []" "CHR '']'' \<notin> set b"
  have "dropWhile isSpace (indentation @ ''[clock::'' @ b @ '']'') = ''[clock::'' @ b @ '']''"
    using isSpace_indentation [of "''clock::'' @ b @ '']''"] by simp
  moreover have "clockToken (''[clock::'' @ b @ '']'' @ []) = Some (dropWhile isSpace [])"
    using b by (rule clockToken_closed)
  ultimately show ?thesis
    by (simp add: isClockLine_def) (subst clockTokens.simps, simp)
qed

section \<open>The recogniser of annotation lines and the expression agree\<close>

lemma star_class: "s \<in> star {[c] | c. P c} \<longleftrightarrow> (\<forall>c \<in> set s. P c)"
proof
  assume "s \<in> star {[c] | c. P c}"
  then show "\<forall>c \<in> set s. P c"
    by (induction rule: star.induct) auto
next
  assume "\<forall>c \<in> set s. P c"
  then show "s \<in> star {[c] | c. P c}"
  proof (induction s)
    case Nil
    show ?case by (rule star_empty)
  next
    case (Cons a s)
    then have "[a] \<in> {[c] | c. P c}" and "s \<in> star {[c] | c. P c}" by auto
    then have "[a] @ s \<in> star {[c] | c. P c}" by (rule star_step)
    then show ?case by simp
  qed
qed

lemma lang_clockToken:
  "u \<in> lang clockTokenRx \<longleftrightarrow>
     (\<exists>b w. u = ''[clock::'' @ b @ '']'' @ w \<and> b \<noteq> [] \<and> CHR '']'' \<notin> set b \<and> (\<forall>c \<in> set w. isSpace c))"
proof
  assume "u \<in> lang clockTokenRx"
  then obtain c0 b' w where u: "u = ''[clock::'' @ ([c0] @ b') @ '']'' @ w"
    and c0: "c0 \<noteq> CHR '']''" and b': "b' \<in> star {[c] | c. c \<noteq> CHR '']''}"
    and w: "w \<in> star {[c] | c. isSpace c}"
    by (auto simp add: clockTokenRx_def)
  from b' have "\<forall>c \<in> set b'. c \<noteq> CHR '']''" by (simp only: star_class)
  with c0 have "CHR '']'' \<notin> set ([c0] @ b')" by auto
  moreover from w have "\<forall>c \<in> set w. isSpace c" by (simp only: star_class)
  moreover have "[c0] @ b' \<noteq> []" by simp
  ultimately show "\<exists>b w. u = ''[clock::'' @ b @ '']'' @ w \<and> b \<noteq> [] \<and> CHR '']'' \<notin> set b
                     \<and> (\<forall>c \<in> set w. isSpace c)"
    using u by blast
next
  assume "\<exists>b w. u = ''[clock::'' @ b @ '']'' @ w \<and> b \<noteq> [] \<and> CHR '']'' \<notin> set b
                     \<and> (\<forall>c \<in> set w. isSpace c)"
  then obtain b w where u: "u = ''[clock::'' @ b @ '']'' @ w" and b: "b \<noteq> []" "CHR '']'' \<notin> set b"
    and w: "\<forall>c \<in> set w. isSpace c" by blast
  from b obtain c0 b' where cb: "b = [c0] @ b'" by (cases b) auto
  with b have "c0 \<noteq> CHR '']''" and "\<forall>c \<in> set b'. c \<noteq> CHR '']''" by auto
  then have "[c0] \<in> lang (Cls (\<lambda>c. c \<noteq> CHR '']''))"
    and "b' \<in> star (lang (Cls (\<lambda>c. c \<noteq> CHR '']'')))"
    by (simp_all add: star_class)
  then have "[c0] @ b' \<in> lang (Many1 (Cls (\<lambda>c. c \<noteq> CHR '']'')))"
    by (simp del: append.simps) blast
  moreover from w have "w \<in> lang (Many0 (Cls isSpace))" by (simp add: star_class)
  then have "'']'' @ w \<in> lang (Cat (Lit '']'') (Many0 (Cls isSpace)))"
    by (simp del: append.simps)
  ultimately have "([c0] @ b') @ ('']'' @ w)
      \<in> lang (Cat (Many1 (Cls (\<lambda>c. c \<noteq> CHR '']''))) (Cat (Lit '']'') (Many0 (Cls isSpace))))"
    by (simp only: lang.simps) blast
  then have "''[clock::'' @ (([c0] @ b') @ ('']'' @ w)) \<in> lang clockTokenRx"
    unfolding clockTokenRx_def by (simp only: lang.simps) blast
  with u cb show "u \<in> lang clockTokenRx" by simp
qed

lemma clockToken_step:
  assumes b: "b \<noteq> []" "CHR '']'' \<notin> set b" and w: "\<forall>c \<in> set w. isSpace c"
    and v: "v = [] \<or> \<not> isSpace (hd v)"
  shows "clockToken (''[clock::'' @ b @ '']'' @ w @ v) = Some v"
proof -
  have "dropWhile isSpace (w @ v) = v"
    using w v by (cases v) (simp_all add: dropWhile_append2)
  with clockToken_closed [OF b, of "w @ v"] show ?thesis by simp
qed

lemma token_starts:
  "u \<in> lang clockTokenRx \<Longrightarrow> \<exists>r. u = CHR ''['' # r"
  by (auto simp add: lang_clockToken)

lemma star_token_starts:
  "v \<in> star (lang clockTokenRx) \<Longrightarrow> v = [] \<or> \<not> isSpace (hd v)"
proof (induction rule: star.induct)
  case star_empty
  show ?case by simp
next
  case (star_step u v)
  from token_starts [OF star_step.hyps(1)] obtain r where "u = CHR ''['' # r" by blast
  then show ?case by (simp add: isSpace_def)
qed

lemma clockTokens_star:
  "v \<in> star (lang clockTokenRx) \<Longrightarrow> u \<in> lang clockTokenRx \<Longrightarrow> clockTokens (u @ v)"
proof (induction arbitrary: u rule: star.induct)
  case star_empty
  from star_empty obtain b w where "u = ''[clock::'' @ b @ '']'' @ w" "b \<noteq> []"
    "CHR '']'' \<notin> set b" "\<forall>c \<in> set w. isSpace c"
    unfolding lang_clockToken by blast
  then have "clockToken (u @ []) = Some []"
    using clockToken_step [of b w "[]"] by simp
  then show ?case by (subst clockTokens.simps) simp
next
  case (star_step u' v u)
  from star_step.prems obtain b w where u: "u = ''[clock::'' @ b @ '']'' @ w" "b \<noteq> []"
    "CHR '']'' \<notin> set b" "\<forall>c \<in> set w. isSpace c"
    unfolding lang_clockToken by blast
  from token_starts [OF star_step.hyps(1)] have "\<not> isSpace (hd (u' @ v))"
    by (auto simp add: isSpace_def)
  with u have "clockToken (u @ u' @ v) = Some (u' @ v)"
    using clockToken_step [of b w "u' @ v"] by simp
  moreover have "clockTokens (u' @ v)"
    using star_step.hyps(1) by (rule star_step.IH)
  ultimately show ?case by (subst clockTokens.simps) simp
qed

lemma clockToken_parts:
  assumes "clockToken s = Some rest"
  shows "\<exists>u. s = u @ rest \<and> u \<in> lang clockTokenRx"
proof -
  let ?r = "drop 8 s"
  let ?b = "takeWhile (\<lambda>c. c \<noteq> CHR '']'') ?r"
  let ?d = "dropWhile (\<lambda>c. c \<noteq> CHR '']'') ?r"
  from assms have pre: "prefix ''[clock::'' s" and b: "?b \<noteq> []" and d: "?d \<noteq> []"
    and rest: "rest = dropWhile isSpace (tl ?d)"
    by (auto simp add: clockToken_def Let_def split: if_splits)
  from pre have s: "s = ''[clock::'' @ ?r"
    by (auto simp add: prefix_def)
  from d have "hd ?d = CHR '']''" using hd_dropWhile [of "\<lambda>c. c \<noteq> CHR '']''" ?r] by simp
  with d have dd: "?d = '']'' @ tl ?d" by (cases ?d) simp_all
  have r: "?r = ?b @ ?d" by simp
  have t: "tl ?d = takeWhile isSpace (tl ?d) @ rest" using rest by simp
  have nob: "CHR '']'' \<notin> set ?b"
    using set_takeWhileD [of "CHR '']''" "\<lambda>c. c \<noteq> CHR '']''" ?r] by blast
  have sp: "\<forall>c \<in> set (takeWhile isSpace (tl ?d)). isSpace c"
    using set_takeWhileD [of _ isSpace "tl ?d"] by blast
  let ?u = "''[clock::'' @ ?b @ '']'' @ takeWhile isSpace (tl ?d)"
  have "?u \<in> lang clockTokenRx"
    unfolding lang_clockToken using b nob sp by blast
  moreover have "s = ?u @ rest"
  proof -
    have "s = ''[clock::'' @ (?b @ ?d)" using s r by simp
    also have "\<dots> = ''[clock::'' @ (?b @ ('']'' @ tl ?d))" using dd by simp
    also have "\<dots> = ''[clock::'' @ (?b @ ('']'' @ (takeWhile isSpace (tl ?d) @ rest)))"
      using t by simp
    finally show ?thesis by simp
  qed
  ultimately show ?thesis by blast
qed

lemma clockTokens_lang:
  "clockTokens s \<Longrightarrow> s \<in> lang (Many1 clockTokenRx)"
proof (induction s rule: clockTokens.induct)
  case (1 s)
  from "1.prems" obtain rest where tok: "clockToken s = Some rest"
    and more: "rest = [] \<or> clockTokens rest"
    by (subst (asm) clockTokens.simps) (auto split: option.splits)
  from clockToken_parts [OF tok] obtain u where u: "s = u @ rest" "u \<in> lang clockTokenRx"
    by blast
  have "rest \<in> star (lang clockTokenRx)"
  proof (cases "rest = []")
    case True
    then show ?thesis by (simp add: star_empty)
  next
    case False
    with more have "clockTokens rest" by simp
    with "1.IH" [OF tok] False have "rest \<in> lang (Many1 clockTokenRx)" by simp
    then obtain u' v' where "rest = u' @ v'" "u' \<in> lang clockTokenRx"
      "v' \<in> star (lang clockTokenRx)" by auto
    then show ?thesis by (auto intro: star_step)
  qed
  with u show ?case by auto
qed

text \<open>
  The recogniser and the expression agree: \<open>isClockLine\<close> holds exactly for the strings of
  the language of \<open>^\s*(\[clock::[^\]]+\]\s*)+$\<close>.
\<close>

lemma isClockLine_lang: "isClockLine s \<longleftrightarrow> s \<in> lang clockLineRx"
proof
  assume "isClockLine s"
  then have "dropWhile isSpace s \<in> lang (Many1 clockTokenRx)"
    by (simp only: isClockLine_def clockTokens_lang)
  moreover have "takeWhile isSpace s \<in> lang (Many0 (Cls isSpace))"
    using set_takeWhileD [of _ isSpace s] by (simp add: star_class)
  ultimately have "takeWhile isSpace s @ dropWhile isSpace s \<in> lang clockLineRx"
    unfolding clockLineRx_def by (simp only: lang.simps) blast
  then show "s \<in> lang clockLineRx" by simp
next
  assume "s \<in> lang clockLineRx"
  then obtain w u v where s: "s = w @ u @ v" and w: "w \<in> star {[c] | c. isSpace c}"
    and u: "u \<in> lang clockTokenRx" and v: "v \<in> star (lang clockTokenRx)"
    by (auto simp add: clockLineRx_def)
  from w have ws: "\<forall>c \<in> set w. isSpace c" by (simp only: star_class)
  from token_starts [OF u] have "\<not> isSpace (hd (u @ v))" "u @ v \<noteq> []"
    by (auto simp add: isSpace_def)
  with ws have "dropWhile isSpace (w @ u @ v) = u @ v"
    by (cases "u @ v") (simp_all add: dropWhile_append2)
  with s clockTokens_star [OF v u] show "isClockLine s"
    by (simp add: isClockLine_def)
qed


section \<open>Opening and closing an interval\<close>

lemma openBody_stamp:
  "CHR '']'' \<notin> set t \<Longrightarrow> CHR 0x0A \<notin> set t \<Longrightarrow> CHR 0x0D \<notin> set t \<Longrightarrow> \<not> sublist ''--'' t
     \<Longrightarrow> openBody (t @ CHR '']'' # r) = t"
proof (induction t)
  case Nil
  show ?case by simp
next
  case (Cons a t)
  from Cons.prems(4) have nosub: "\<not> sublist ''--'' t" and nopre: "\<not> prefix ''--'' (a # t)"
    by (auto simp add: sublist_Cons_right)
  from nopre have "\<not> prefix ''--'' (a # t @ CHR '']'' # r)"
    by (cases t) auto
  with Cons nosub show ?case by (auto simp add: isLineTerminator_def)
qed

lemma openClockAt_stamp:
  "validStamp t \<Longrightarrow> openClockAt (''[clock::'' @ t @ CHR '']'' # r) = Some (t, 9 + length t)"
proof -
  assume v: "validStamp t"
  then have ob: "openBody (t @ CHR '']'' # r) = t"
    by (simp add: validStamp_def openBody_stamp)
  from v have ne: "t \<noteq> []" by (simp add: validStamp_def)
  have dr: "drop (8 + length t) (''[clock::'' @ t @ CHR '']'' # r) = CHR '']'' # r"
    by (simp add: eval_nat_numeral)
  have pre: "prefix ''[clock::'' (''[clock::'' @ t @ CHR '']'' # r)" by simp
  have d8: "drop 8 (''[clock::'' @ t @ CHR '']'' # r) = t @ CHR '']'' # r" by simp
  show ?thesis
    unfolding openClockAt_def by (simp only: pre d8 ob dr Let_def if_True ne) simp
qed

lemma openBody_prefix: "\<exists>r. s = openBody s @ r"
  by (induction s) auto

lemma openBody_clean:
  "CHR '']'' \<notin> set (openBody s) \<and> CHR 0x0A \<notin> set (openBody s) \<and> CHR 0x0D \<notin> set (openBody s)"
  by (induction s) (auto simp add: isLineTerminator_def)

lemma openBody_no_separator: "\<not> sublist ''--'' (openBody s)"
proof (induction s)
  case Nil
  show ?case by simp
next
  case (Cons c cs)
  show ?case
  proof (cases "c = CHR '']'' \<or> prefix ''--'' (c # cs) \<or> isLineTerminator c")
    case True
    then have "openBody (c # cs) = []" by simp
    then show ?thesis by simp
  next
    case False
    then have ob: "openBody (c # cs) = c # openBody cs" by simp
    from openBody_prefix [of cs] obtain r where r: "openBody cs @ r = cs" by metis
    have "\<not> prefix ''--'' (c # openBody cs)"
    proof
      assume "prefix ''--'' (c # openBody cs)"
      then have "prefix ''--'' ((c # openBody cs) @ r)" by (rule prefix_prefix)
      then have "prefix ''--'' (c # (openBody cs @ r))" by (simp only: append_Cons)
      then have "prefix ''--'' (c # cs)" by (simp only: r)
      with False show False by blast
    qed
    with Cons ob show ?thesis by (simp add: sublist_Cons_right)
  qed
qed

text \<open>
  The open-interval expression matches at the first character of \<open>s\<close> exactly when \<open>s\<close>
  starts with \<open>[clock::\<close>, a start timestamp without \<open>]\<close>, line terminator and \<open>--\<close>, and
  \<open>]\<close>; the capture group is that timestamp.
\<close>

lemma openClockAt_iff:
  "openClockAt s = Some (g, n)
     \<longleftrightarrow> (\<exists>r. s = ''[clock::'' @ g @ '']'' @ r \<and> validStamp g \<and> n = 9 + length g)"
proof
  assume m: "openClockAt s = Some (g, n)"
  then have pre: "prefix ''[clock::'' s" and g: "g = openBody (drop 8 s)" "g \<noteq> []"
    and close: "prefix '']'' (drop (8 + length g) s)" and n: "n = 9 + length g"
    by (auto simp add: openClockAt_def Let_def split: if_splits)
  from pre have s: "s = ''[clock::'' @ drop 8 s" by (auto simp add: prefix_def)
  from openBody_prefix [of "drop 8 s"] g obtain r where r: "drop 8 s = g @ r" by auto
  have "drop (8 + length g) s = drop (length g) (drop 8 s)" by (simp add: add.commute)
  also have "\<dots> = r" using r by simp
  finally have "prefix '']'' r" using close by simp
  then obtain r' where r': "r = '']'' @ r'" by (auto simp add: prefix_def)
  have "validStamp g"
    unfolding validStamp_def
    using g openBody_clean [of "drop 8 s"] openBody_no_separator [of "drop 8 s"] by simp
  moreover have "s = ''[clock::'' @ g @ '']'' @ r'"
  proof -
    have "s = ''[clock::'' @ (g @ ('']'' @ r'))" using s r r' by simp
    then show ?thesis by simp
  qed
  ultimately show "\<exists>r. s = ''[clock::'' @ g @ '']'' @ r \<and> validStamp g \<and> n = 9 + length g"
    using n by blast
next
  assume "\<exists>r. s = ''[clock::'' @ g @ '']'' @ r \<and> validStamp g \<and> n = 9 + length g"
  then obtain r where s: "s = ''[clock::'' @ g @ '']'' @ r" and v: "validStamp g"
    and n: "n = 9 + length g" by blast
  from openClockAt_stamp [OF v, of r] s n show "openClockAt s = Some (g, n)" by simp
qed

lemma openClockAt_space: "openClockAt (CHR '' '' # s) = None"
  by (simp add: openClockAt_def)

lemma execOpenClock_new:
  "validStamp t \<Longrightarrow> execOpenClock (indentation @ ''[clock::'' @ t @ '']'') 0 = Some (6, t, 9 + length t)"
proof -
  assume v: "validStamp t"
  let ?tok = "''[clock::'' @ t @ '']''"
  have at6: "openClockAt (drop 6 (indentation @ ?tok)) = Some (t, 9 + length t)"
    using openClockAt_stamp [OF v, of "[]"] by (simp add: indentation_def)
  have len: "\<not> length (indentation @ ?tok) < 6" by (simp add: indentation_def)
  have e6: "execOpenClock (indentation @ ?tok) 6 = Some (6, t, 9 + length t)"
    by (subst execOpenClock.simps) (simp only: len at6 if_False option.case prod.case)
  have step: "\<And>p. p < 6 \<Longrightarrow> execOpenClock (indentation @ ?tok) p = execOpenClock (indentation @ ?tok) (Suc p)"
  proof -
    fix p :: nat assume p: "p < 6"
    then have "drop p (indentation @ ?tok) = CHR '' '' # drop (p + 1) (indentation @ ?tok)"
      by (auto simp add: indentation_def less_Suc_eq eval_nat_numeral)
    then have "openClockAt (drop p (indentation @ ?tok)) = None"
      by (simp add: openClockAt_space)
    moreover from p have "\<not> length (indentation @ ?tok) < p" by (simp add: indentation_def)
    ultimately show "execOpenClock (indentation @ ?tok) p = execOpenClock (indentation @ ?tok) (Suc p)"
      by (subst execOpenClock.simps) simp
  qed
  have "execOpenClock (indentation @ ?tok) 0 = execOpenClock (indentation @ ?tok) (Suc 0)"
    by (rule step) simp
  also have "\<dots> = execOpenClock (indentation @ ?tok) (Suc (Suc 0))"
    by (rule step) simp
  also have "\<dots> = execOpenClock (indentation @ ?tok) (Suc (Suc (Suc 0)))"
    by (rule step) simp
  also have "\<dots> = execOpenClock (indentation @ ?tok) (Suc (Suc (Suc (Suc 0))))"
    by (rule step) simp
  also have "\<dots> = execOpenClock (indentation @ ?tok) (Suc (Suc (Suc (Suc (Suc 0)))))"
    by (rule step) simp
  also have "\<dots> = execOpenClock (indentation @ ?tok) (Suc (Suc (Suc (Suc (Suc (Suc 0))))))"
    by (rule step) simp
  also have "Suc (Suc (Suc (Suc (Suc (Suc 0))))) = 6" by simp
  finally show ?thesis using e6 by simp
qed

lemma lastOpenMatch_new:
  "validStamp t \<Longrightarrow>
   lastOpenMatch (indentation @ ''[clock::'' @ t @ '']'') 0 None = Some (6, t, 9 + length t)"
proof -
  assume v: "validStamp t"
  let ?line = "indentation @ ''[clock::'' @ t @ '']''"
  have len: "length ?line = 6 + (9 + length t)" by (simp add: indentation_def)
  have "execOpenClock ?line (6 + (9 + length t)) = None"
  proof -
    have a: "openClockAt (drop (6 + (9 + length t)) ?line) = None"
      using len by (simp add: openClockAt_def)
    have b: "execOpenClock ?line (6 + (9 + length t) + 1) = None"
      using len by (subst execOpenClock.simps) simp
    show ?thesis
      using len a b by (subst execOpenClock.simps) simp
  qed
  then have "lastOpenMatch ?line (6 + (9 + length t)) (Some (6, t, 9 + length t)) = Some (6, t, 9 + length t)"
    by (subst lastOpenMatch.simps) simp
  then show ?thesis
    using execOpenClock_new [OF v] by (subst lastOpenMatch.simps) simp
qed



lemma findTaskInLines_found:
  "findTaskInLines lines d s = Inr r \<Longrightarrow> r \<noteq> - 1 \<Longrightarrow>
     0 \<le> r \<and> r < int (length lines) \<and> isTaskLine (lines ! nat r) d"
proof -
  assume res: "findTaskInLines lines d s = Inr r" and found: "r \<noteq> - 1"
  show ?thesis
  proof (cases "0 \<le> s \<and> s < int (length lines) \<and> isTaskLine (lines ! nat s) d")
    case True
    then have "findTaskInLines lines d s = Inr s"
      by (simp add: findTaskInLines_def lineAt_def)
    with res True show ?thesis by simp
  next
    case False
    then have "findTaskInLines lines d s = Inr (scanLines lines d 0)"
      by (auto simp add: findTaskInLines_def lineAt_def)
    with res have r: "r = scanLines lines d 0" by simp
    from scanLines_cases [of lines d 0] r found obtain k where
      "scanLines lines d 0 = int k" "k < length lines" "isTaskLine (lines ! k) d" by auto
    with r show ?thesis by simp
  qed
qed

lemma findTaskInLines_fast:
  "i < length lines \<Longrightarrow> isTaskLine (lines ! i) d \<Longrightarrow> findTaskInLines lines d (int i) = Inr (int i)"
  by (simp add: findTaskInLines_def lineAt_def)

lemma skipClockLines_stop:
  "\<not> (s < length lines \<and> isClockLine (lines ! s)) \<Longrightarrow> skipClockLines lines s = s"
  by (subst skipClockLines.simps) auto

lemma manageClockStart_plain:
  "\<not> (i + 1 < length lines \<and> isClockLine (lines ! (i + 1))) \<Longrightarrow>
   manageClockStart lines i t
     = take (i + 1) lines @ [indentation @ ''[clock::'' @ t @ '']''] @ drop (i + 1) lines"
  by (simp add: manageClockStart_def skipClockLines_stop)

lemma openClockTest_new: "validStamp t \<Longrightarrow> openClockTest (indentation @ ''[clock::'' @ t @ '']'')"
  using execOpenClock_new [of t] by (simp add: openClockTest_def)

lemma findLastOpenClock_new:
  assumes i: "i < length lines"
    and plain: "\<not> (i + 1 < length lines \<and> isClockLine (lines ! (i + 1)))"
    and v: "validStamp t"
  shows "findLastOpenClock
           (take (i + 1) lines @ [indentation @ ''[clock::'' @ t @ '']''] @ drop (i + 1) lines)
           (i + 1) (- 1) = int (i + 1)"
proof -
  let ?new = "indentation @ ''[clock::'' @ t @ '']''"
  let ?L = "take (i + 1) lines @ [?new] @ drop (i + 1) lines"
  have lenTake: "length (take (i + 1) lines) = i + 1" using i by simp
  have at: "?L ! (i + 1) = ?new"
    using lenTake by (metis append_Cons nth_append_length)
  have len: "length ?L = length lines + 1" using i by simp
  have next_line: "i + 2 < length ?L \<Longrightarrow> ?L ! (i + 2) = lines ! (i + 1)"
  proof -
    assume "i + 2 < length ?L"
    with len have inb: "i + 1 < length lines" by linarith
    have "?L ! (i + 2) = ([?new] @ drop (i + 1) lines) ! (i + 2 - length (take (i + 1) lines))"
      using lenTake by (simp add: nth_append)
    also have "\<dots> = drop (i + 1) lines ! 0" using lenTake by simp
    also have "\<dots> = lines ! (i + 1)" using inb by simp
    finally show ?thesis .
  qed
  have cl: "isClockLine ?new"
    using v isClockLine_new [of t] by (simp add: validStamp_def)
  have stop: "\<not> (i + 2 < length ?L \<and> isClockLine (?L ! (i + 2)))"
  proof
    assume a: "i + 2 < length ?L \<and> isClockLine (?L ! (i + 2))"
    then have b: "i + 2 < length ?L" and c: "isClockLine (?L ! (i + 2))" by blast+
    from b len have "i + 1 < length lines" by linarith
    moreover from c next_line [OF b] have "isClockLine (lines ! (i + 1))" by (simp only:)
    ultimately show False using plain by blast
  qed
  have second: "findLastOpenClock ?L (i + 2) (int (i + 1)) = int (i + 1)"
    using stop by (subst findLastOpenClock.simps) auto
  have inb: "i + 1 < length ?L" using i len by linarith
  have "findLastOpenClock ?L (i + 1) (- 1) = findLastOpenClock ?L (i + 1 + 1) (int (i + 1))"
    using inb cl at openClockTest_new [OF v]
    by (subst findLastOpenClock.simps) (simp only: if_True simp_thms)
  also have "i + 1 + 1 = i + 2" by simp
  finally show ?thesis using second by simp
qed

lemma manageClock_open_close:
  assumes i: "i < length lines"
    and plain: "\<not> (i + 1 < length lines \<and> isClockLine (lines ! (i + 1)))"
    and v: "validStamp t0"
  shows "manageClockEnd (manageClockStart lines i t0) i t1
           = take (i + 1) lines @ [indentation @ ''[clock::'' @ t0 @ ''--'' @ t1 @ '']'']
               @ drop (i + 1) lines"
proof -
  let ?new = "indentation @ ''[clock::'' @ t0 @ '']''"
  let ?L = "take (i + 1) lines @ [?new] @ drop (i + 1) lines"
  have start: "manageClockStart lines i t0 = ?L"
    using plain by (rule manageClockStart_plain)
  have last: "findLastOpenClock ?L (i + 1) (- 1) = int (i + 1)"
    using i plain v by (rule findLastOpenClock_new)
  have lenTake: "length (take (i + 1) lines) = i + 1" using i by simp
  have at: "?L ! (i + 1) = ?new"
    using lenTake by (metis append_Cons nth_append_length)
  have upd: "\<And>x. ?L[i + 1 := x] = take (i + 1) lines @ [x] @ drop (i + 1) lines"
    using lenTake by (metis append_Cons list_update_length)
  have m: "lastOpenMatch ?new 0 None = Some (6, t0, 9 + length t0)"
    using v by (rule lastOpenMatch_new)
  have pre: "take 6 ?new = indentation" by (simp add: indentation_def)
  have post: "drop (6 + (9 + length t0)) ?new = []" by (simp add: indentation_def)
  have "manageClockEnd ?L i t1 = ?L[i + 1 := indentation @ ''[clock::'' @ t0 @ ''--'' @ t1 @ '']'' @ []]"
    unfolding manageClockEnd_def
    by (simp only: last Let_def at m pre post option.case prod.case nat_int) simp
  with start upd show ?thesis by simp
qed



lemma isDigit_plain:
  "isDigit c \<Longrightarrow> c \<noteq> CHR ''-'' \<and> c \<noteq> CHR '']'' \<and> c \<noteq> CHR 0x0A \<and> c \<noteq> CHR 0x0D"
  by (auto simp add: isDigit_def)

lemma isoStamp_valid: "isoStamp t \<Longrightarrow> validStamp t"
proof -
  assume iso: "isoStamp t"
  then obtain y1 y2 y3 y4 a m1 m2 b d1 d2 c h1 h2 e n1 n2 f s1 s2 where
    t: "t = [y1, y2, y3, y4, a, m1, m2, b, d1, d2, c, h1, h2, e, n1, n2, f, s1, s2]"
    by (auto simp add: isoStamp_def split: list.splits)
  from iso t have sep: "a = CHR ''-''" "b = CHR ''-''" "c = CHR ''T''" "e = CHR '':''" "f = CHR '':''"
    and dig: "isDigit y1" "isDigit y2" "isDigit y3" "isDigit y4" "isDigit m1" "isDigit m2"
      "isDigit d1" "isDigit d2" "isDigit h1" "isDigit h2" "isDigit n1" "isDigit n2"
      "isDigit s1" "isDigit s2"
    by (simp_all add: isoStamp_def)
  note plain = dig [THEN isDigit_plain]
  show ?thesis
    unfolding validStamp_def t sep
    using plain by (auto simp add: sublist_code)
qed

lemma manageClockAction_found:
  "V (sourcePath task) = Some content \<Longrightarrow>
   findTaskInLines (splitLines content) (description task) (lineNumber task) = Inr (int i) \<Longrightarrow>
   manageClockAction ty t (V, task)
     = (V(sourcePath task \<mapsto>
            joinLines (case ty of
                         Start \<Rightarrow> manageClockStart (splitLines content) i t
                       | End \<Rightarrow> manageClockEnd (splitLines content) i t)),
        task\<lparr>lineNumber := int i\<rparr>)"
  by (cases ty) (simp_all add: manageClockAction_def Let_def)

text \<open>
  C1. On a document whose task line at index \<open>i\<close> has no annotation line below it, an
  interval open with timestamp \<open>t0\<close> followed by an interval close with timestamp \<open>t1\<close>
  leaves exactly one new line below the task line, and that line is the indentation and
  the closed token \<open>[clock::t0--t1]\<close>: the start timestamp is kept and the end timestamp
  appended. This holds for the line list and for the document that the two queued actions
  write, where the second action locates the task again. \<open>t0\<close> is a timestamp as the
  source formats it: not empty, without \<open>]\<close>, line terminator or \<open>--\<close>
  (\<open>isoStamp_valid\<close>: every value of the format is of this kind).
\<close>

theorem clock_open_close:
  assumes inVault: "V (sourcePath task) = Some content"
    and found: "findTaskInLines (splitLines content) (description task) (lineNumber task) = Inr (int i)"
    and plain: "\<not> (i + 1 < length (splitLines content) \<and> isClockLine (splitLines content ! (i + 1)))"
    and stamp: "validStamp t0"
  shows "manageClockEnd (manageClockStart (splitLines content) i t0) i t1
           = take (i + 1) (splitLines content)
               @ [indentation @ ''[clock::'' @ t0 @ ''--'' @ t1 @ '']'']
               @ drop (i + 1) (splitLines content)
         \<and> manageClockAction End t1 (manageClockAction Start t0 (V, task))
           = (V(sourcePath task \<mapsto>
                joinLines (take (i + 1) (splitLines content)
                             @ [indentation @ ''[clock::'' @ t0 @ ''--'' @ t1 @ '']'']
                             @ drop (i + 1) (splitLines content))),
              task\<lparr>lineNumber := int i\<rparr>)"
proof -
  define lines where "lines = splitLines content"
  define L where "L = manageClockStart lines i t0"
  define R where "R = take (i + 1) lines @ [indentation @ ''[clock::'' @ t0 @ ''--'' @ t1 @ '']'']
                        @ drop (i + 1) lines"
  define task1 where "task1 = task\<lparr>lineNumber := int i\<rparr>"
  define V1 where "V1 = V(sourcePath task \<mapsto> joinLines L)"
  from findTaskInLines_found [OF found] have i: "i < length lines"
    and tl: "isTaskLine (lines ! i) (description task)" by (simp_all add: lines_def)
  from plain have plain': "\<not> (i + 1 < length lines \<and> isClockLine (lines ! (i + 1)))"
    by (simp add: lines_def)
  have closed: "manageClockEnd L i t1 = R"
    unfolding L_def R_def using i plain' stamp by (rule manageClock_open_close)
  have start: "L = take (i + 1) lines @ [indentation @ ''[clock::'' @ t0 @ '']''] @ drop (i + 1) lines"
    unfolding L_def using plain' by (rule manageClockStart_plain)
  have first: "manageClockAction Start t0 (V, task) = (V1, task1)"
    using manageClockAction_found [of V task content i Start t0] inVault found
    by (simp add: V1_def task1_def L_def lines_def)
  have nonl: "\<forall>l \<in> set L. CHR 0x0A \<notin> set l"
  proof
    fix l assume "l \<in> set L"
    with start have "l \<in> set (take (i + 1) lines) \<or> l = indentation @ ''[clock::'' @ t0 @ '']''
                      \<or> l \<in> set (drop (i + 1) lines)"
      by auto
    then show "CHR 0x0A \<notin> set l"
    proof (elim disjE)
      assume "l \<in> set (take (i + 1) lines)"
      then have "l \<in> set (splitLines content)" unfolding lines_def by (rule in_set_takeD)
      then show ?thesis by (rule splitLines_no_newline)
    next
      assume "l = indentation @ ''[clock::'' @ t0 @ '']''"
      with stamp show ?thesis by (simp add: validStamp_def indentation_def)
    next
      assume "l \<in> set (drop (i + 1) lines)"
      then have "l \<in> set (splitLines content)" unfolding lines_def by (rule in_set_dropD)
      then show ?thesis by (rule splitLines_no_newline)
    qed
  qed
  have "L \<noteq> []" using start by simp
  with nonl have split: "splitLines (joinLines L) = L"
    by (rule splitLines_joinLines [rotated])
  have "L ! i = lines ! i"
    using i start by (simp add: nth_append)
  moreover have "i < length L" using i start by simp
  ultimately have again: "findTaskInLines L (description task) (int i) = Inr (int i)"
    using tl by (simp add: findTaskInLines_fast)
  have inV1: "V1 (sourcePath task1) = Some (joinLines L)"
    by (simp add: V1_def task1_def)
  have again': "findTaskInLines (splitLines (joinLines L)) (description task1) (lineNumber task1)
                  = Inr (int i)"
    using again by (simp add: split task1_def)
  have "manageClockAction End t1 (V1, task1)
          = (V1(sourcePath task1 \<mapsto> joinLines (manageClockEnd (splitLines (joinLines L)) i t1)),
             task1\<lparr>lineNumber := int i\<rparr>)"
    using manageClockAction_found [of V1 task1 "joinLines L" i End t1] inV1 again' by simp
  also have "\<dots> = (V(sourcePath task \<mapsto> joinLines R), task1)"
    by (simp add: split closed V1_def task1_def)
  finally have second: "manageClockAction End t1 (manageClockAction Start t0 (V, task))
                          = (V(sourcePath task \<mapsto> joinLines R), task1)"
    using first by simp
  from closed have "manageClockEnd (manageClockStart (splitLines content) i t0) i t1 = R"
    by (simp add: L_def lines_def)
  with second show ?thesis
    by (simp add: R_def task1_def lines_def)
qed


lemma milkTask_fields:
  "sourcePath milkTask = ''f.md''" "description milkTask = ''Buy milk''" "lineNumber milkTask = 1"
  by (simp_all add: milkTask_def toKanbanTask_def mkRaw_def orElse_def Let_def)

lemma noteVault_lines:
  "noteVault ''f.md'' = Some ''# Shopping\<newline>- [ ] Buy milk\<newline>Next paragraph''"
  "splitLines ''# Shopping\<newline>- [ ] Buy milk\<newline>Next paragraph''
     = [''# Shopping'', ''- [ ] Buy milk'', ''Next paragraph'']"
  by (simp_all add: noteVault_def)

lemma milkTask_located:
  "findTaskInLines [''# Shopping'', ''- [ ] Buy milk'', ''Next paragraph''] ''Buy milk'' 1 = Inr (int 1)"
  by (simp add: findTaskInLines_def lineAt_def isTaskLine_def includes_str_def sublist_code)

lemma paragraph_not_clock: "\<not> isClockLine ''Next paragraph''"
  by (simp add: isClockLine_def isSpace_def) (subst clockTokens.simps, simp add: clockToken_def)

theorem clock_open_close_witness:
  "validStamp ''2026-11-02T10:00:00''
   \<and> fst (manageClockAction End ''2026-11-02T11:30:00''
            (manageClockAction Start ''2026-11-02T10:00:00'' (noteVault, milkTask))) ''f.md''
       = Some ''# Shopping\<newline>- [ ] Buy milk\<newline>      [clock::2026-11-02T10:00:00--2026-11-02T11:30:00]\<newline>Next paragraph''"
proof -
  let ?content = "''# Shopping\<newline>- [ ] Buy milk\<newline>Next paragraph''"
  have inVault: "noteVault (sourcePath milkTask) = Some ?content"
    by (simp only: milkTask_fields noteVault_lines)
  have found: "findTaskInLines (splitLines ?content) (description milkTask) (lineNumber milkTask)
                 = Inr (int 1)"
    by (simp only: milkTask_fields noteVault_lines milkTask_located)
  have plain: "\<not> (1 + 1 < length (splitLines ?content) \<and> isClockLine (splitLines ?content ! (1 + 1)))"
    using paragraph_not_clock by (simp only: noteVault_lines) simp
  have stamp: "validStamp ''2026-11-02T10:00:00''"
    by (simp add: validStamp_def sublist_code)
  from clock_open_close [where V = noteVault and task = milkTask and content = ?content
      and i = 1 and ?t0.0 = "''2026-11-02T10:00:00''" and ?t1.0 = "''2026-11-02T11:30:00''",
      OF inVault found plain stamp]
  have "manageClockAction End ''2026-11-02T11:30:00''
            (manageClockAction Start ''2026-11-02T10:00:00'' (noteVault, milkTask))
        = (noteVault(sourcePath milkTask \<mapsto>
                joinLines (take (1 + 1) (splitLines ?content)
                             @ [indentation @ ''[clock::'' @ ''2026-11-02T10:00:00'' @ ''--''
                                  @ ''2026-11-02T11:30:00'' @ '']'']
                             @ drop (1 + 1) (splitLines ?content))),
              milkTask\<lparr>lineNumber := int 1\<rparr>)"
    by (rule conjunct2)
  then have "fst (manageClockAction End ''2026-11-02T11:30:00''
            (manageClockAction Start ''2026-11-02T10:00:00'' (noteVault, milkTask))) ''f.md''
       = Some (joinLines (take (1 + 1) (splitLines ?content)
                             @ [indentation @ ''[clock::'' @ ''2026-11-02T10:00:00'' @ ''--''
                                  @ ''2026-11-02T11:30:00'' @ '']'']
                             @ drop (1 + 1) (splitLines ?content)))"
    by (simp add: milkTask_fields)
  also have "\<dots> = Some ''# Shopping\<newline>- [ ] Buy milk\<newline>      [clock::2026-11-02T10:00:00--2026-11-02T11:30:00]\<newline>Next paragraph''"
    by (simp only: noteVault_lines) (simp add: indentation_def)
  finally show ?thesis using stamp by simp
qed

text \<open>
  C9. When no line of the annotation run below the task line matches the open-interval
  expression, the interval close leaves every line of the document as it is: the line list
  is returned unchanged, and the queued action writes the document back as it read it. The
  model has no error value on this path.
\<close>

theorem clock_close_noop:
  "((\<forall>l \<in> set (annotationRun lines (i + 1)). \<not> openClockTest l)
      \<longrightarrow> manageClockEnd lines i t = lines)
   \<and> (V (sourcePath task) = Some content
       \<and> findTaskInLines (splitLines content) (description task) (lineNumber task) = Inr (int i)
       \<and> (\<forall>l \<in> set (annotationRun (splitLines content) (i + 1)). \<not> openClockTest l)
      \<longrightarrow> fst (manageClockAction End t (V, task)) = V)"
proof (intro conjI impI)
  assume "\<forall>l \<in> set (annotationRun lines (i + 1)). \<not> openClockTest l"
  then show "manageClockEnd lines i t = lines" by (rule manageClockEnd_none)
next
  assume a: "V (sourcePath task) = Some content
       \<and> findTaskInLines (splitLines content) (description task) (lineNumber task) = Inr (int i)
       \<and> (\<forall>l \<in> set (annotationRun (splitLines content) (i + 1)). \<not> openClockTest l)"
  then have same: "manageClockEnd (splitLines content) i t = splitLines content"
    by (simp add: manageClockEnd_none)
  have "V(sourcePath task \<mapsto> content) = V"
    using a by (simp add: fun_upd_idem)
  from a have "manageClockAction End t (V, task)
      = (V(sourcePath task \<mapsto> joinLines (manageClockEnd (splitLines content) i t)),
         task\<lparr>lineNumber := int i\<rparr>)"
    using manageClockAction_found [of V task content i End t] by simp
  with same \<open>V(sourcePath task \<mapsto> content) = V\<close>
  show "fst (manageClockAction End t (V, task)) = V"
    by (simp add: joinLines_splitLines)
qed



lemma closedVault_lines:
  "closedVault ''f.md'' = Some ''# Shopping\<newline>- [ ] Buy milk\<newline>  [clock::09:00--09:30]\<newline>Next paragraph''"
  "splitLines ''# Shopping\<newline>- [ ] Buy milk\<newline>  [clock::09:00--09:30]\<newline>Next paragraph''
     = [''# Shopping'', ''- [ ] Buy milk'', ''  [clock::09:00--09:30]'', ''Next paragraph'']"
  by (simp_all add: closedVault_def)

lemma closed_is_clock: "isClockLine ''  [clock::09:00--09:30]''"
  by (simp add: isClockLine_def isSpace_def) (subst clockTokens.simps, simp add: clockToken_def)

lemma closed_not_open: "\<not> openClockTest ''  [clock::09:00--09:30]''"
  by (simp add: openClockTest_def execOpenClock.simps openClockAt_def isLineTerminator_def)

lemma closed_run:
  "annotationRun [''# Shopping'', ''- [ ] Buy milk'', ''  [clock::09:00--09:30]'', ''Next paragraph''] (1 + 1)
     = [''  [clock::09:00--09:30]'']"
  using closed_is_clock paragraph_not_clock by (simp add: annotationRun_def)

lemma milkTask_located_closed:
  "findTaskInLines [''# Shopping'', ''- [ ] Buy milk'', ''  [clock::09:00--09:30]'', ''Next paragraph'']
     ''Buy milk'' 1 = Inr (int 1)"
  by (simp add: findTaskInLines_def lineAt_def isTaskLine_def includes_str_def sublist_code)

theorem clock_close_noop_witness:
  "manageClockEnd [''# Shopping'', ''- [ ] Buy milk'', ''  [clock::09:00--09:30]'', ''Next paragraph'']
       1 ''10:15''
     = [''# Shopping'', ''- [ ] Buy milk'', ''  [clock::09:00--09:30]'', ''Next paragraph'']
   \<and> fst (manageClockAction End ''10:15'' (closedVault, milkTask)) = closedVault"
proof -
  let ?content = "''# Shopping\<newline>- [ ] Buy milk\<newline>  [clock::09:00--09:30]\<newline>Next paragraph''"
  let ?lines = "[''# Shopping'', ''- [ ] Buy milk'', ''  [clock::09:00--09:30]'', ''Next paragraph'']"
  have none: "\<forall>l \<in> set (annotationRun ?lines (1 + 1)). \<not> openClockTest l"
    using closed_not_open by (simp only: closed_run) simp
  have inVault: "closedVault (sourcePath milkTask) = Some ?content"
    by (simp only: milkTask_fields closedVault_lines)
  have found: "findTaskInLines (splitLines ?content) (description milkTask) (lineNumber milkTask)
                 = Inr (int 1)"
    by (simp only: milkTask_fields closedVault_lines milkTask_located_closed)
  have none': "\<forall>l \<in> set (annotationRun (splitLines ?content) (1 + 1)). \<not> openClockTest l"
    using none by (simp only: closedVault_lines)
  from clock_close_noop [where lines = ?lines and i = 1 and t = "''10:15''"] none
  have a: "manageClockEnd ?lines 1 ''10:15'' = ?lines" by blast
  from clock_close_noop [where V = closedVault and task = milkTask and content = ?content
      and i = 1 and t = "''10:15''"] inVault found none'
  have b: "fst (manageClockAction End ''10:15'' (closedVault, milkTask)) = closedVault" by blast
  from a b show ?thesis by blast
qed



lemma checkIfTaskIsClockedIn_resolved:
  assumes current: "resolvedLine V task = Some (lineNumber task)"
  shows "checkIfTaskIsClockedIn V task \<longleftrightarrow> openMarkerBelow V task"
proof -
  from current obtain content where inVault: "V (sourcePath task) = Some content"
    by (auto simp add: resolvedLine_def split: option.splits)
  with current have found:
    "findTaskInLines (splitLines content) (description task) (lineNumber task)
       = Inr (lineNumber task)"
    and hit: "lineNumber task \<noteq> - 1"
    by (auto simp add: resolvedLine_def split: sum.splits if_splits)
  from findTaskInLines_found [OF found hit]
  have range: "0 \<le> lineNumber task" "lineNumber task < int (length (splitLines content))"
    by simp_all
  have "checkIfTaskIsClockedIn V task
          \<longleftrightarrow> anyOpenClock (splitLines content) (nat (lineNumber task) + 1)"
    using inVault range by (simp add: checkIfTaskIsClockedIn_def Let_def)
  moreover have "openMarkerBelow V task
          \<longleftrightarrow> list_ex openClockTest (annotationRun (splitLines content) (nat (lineNumber task) + 1))"
    using inVault current by (simp add: openMarkerBelow_def)
  ultimately show ?thesis by (simp add: anyOpenClock_iff list_ex_iff)
qed

lemma toKanbanTask_isClockedIn:
  "isClockedIn (toKanbanTask S w r k)
     \<longleftrightarrow> raw_isClockedIn r = Some True \<or> symbolToColumn (columns S) (rawSymbol r) = clockColumn S"
  by (simp add: toKanbanTask_def Let_def)

text \<open>
  C5 (amended). For every task that ingestion keeps and whose line-number hint is current,
  that is, the Task Locator resolves the task to \<open>task.lineNumber\<close> in its live source
  document: if an open interval marker is found in the annotation run immediately below the
  task's resolved line, the task has \<open>column = clockColumn\<close> and \<open>isClockedIn = true\<close> after
  ingestion, whatever column its status symbol gave; without such a marker the task stays
  as parsed. After ingestion \<open>isClockedIn\<close> holds exactly when such a marker exists, or the
  record reports an active interval, or the column of the symbol is the clock column.
  Nothing is stated for a task whose hint is stale.
\<close>

theorem loadTasks_clock:
  assumes k: "k < length (parseTasks S w raws)"
    and current: "resolvedLine V (parseTasks S w raws ! k)
                    = Some (lineNumber (parseTasks S w raws ! k))"
  shows "(openMarkerBelow V (parseTasks S w raws ! k)
            \<longrightarrow> column (loadTasks S w V raws ! k) = clockColumn S
                 \<and> isClockedIn (loadTasks S w V raws ! k))
         \<and> (\<not> openMarkerBelow V (parseTasks S w raws ! k)
            \<longrightarrow> loadTasks S w V raws ! k = parseTasks S w raws ! k)
         \<and> (isClockedIn (loadTasks S w V raws ! k)
            \<longleftrightarrow> openMarkerBelow V (parseTasks S w raws ! k)
                 \<or> isClockedIn (parseTasks S w raws ! k))
         \<and> (\<exists>j < length raws. parseTasks S w raws ! k = toKanbanTask S w (raws ! j) j
               \<and> (isClockedIn (parseTasks S w raws ! k)
                    \<longleftrightarrow> raw_isClockedIn (raws ! j) = Some True
                         \<or> symbolToColumn (columns S) (rawSymbol (raws ! j)) = clockColumn S))"
proof -
  let ?t = "parseTasks S w raws ! k"
  have nth: "loadTasks S w V raws ! k
               = (if openMarkerBelow V ?t then ?t\<lparr>isClockedIn := True, column := clockColumn S\<rparr>
                  else ?t)"
    using k checkIfTaskIsClockedIn_resolved [OF current] by (simp add: loadTasks_def)
  from k have "?t \<in> set (parseTasks S w raws)" by simp
  then have "?t \<in> set (map (\<lambda>(index, task). toKanbanTask S w task index) (enumerate 0 raws))"
    by (simp add: parseTasks_def)
  then obtain p where p: "p \<in> set (enumerate 0 raws)" "?t = toKanbanTask S w (snd p) (fst p)"
    by (auto simp add: split_def)
  then have j: "fst p < length raws" "?t = toKanbanTask S w (raws ! fst p) (fst p)"
    by (simp_all add: in_set_enumerate_eq)
  have origin: "\<exists>j < length raws. ?t = toKanbanTask S w (raws ! j) j
               \<and> (isClockedIn ?t
                    \<longleftrightarrow> raw_isClockedIn (raws ! j) = Some True
                         \<or> symbolToColumn (columns S) (rawSymbol (raws ! j)) = clockColumn S)"
  proof (intro exI conjI)
    show "fst p < length raws" by (rule j(1))
    show "?t = toKanbanTask S w (raws ! fst p) (fst p)" by (rule j(2))
    show "isClockedIn ?t
            \<longleftrightarrow> raw_isClockedIn (raws ! fst p) = Some True
                 \<or> symbolToColumn (columns S) (rawSymbol (raws ! fst p)) = clockColumn S"
      by (subst j(2)) (rule toKanbanTask_isClockedIn)
  qed
  show ?thesis
  proof (cases "openMarkerBelow V ?t")
    case True
    with nth origin show ?thesis by simp
  next
    case False
    with nth origin show ?thesis by simp
  qed
qed

lemma boardSettings_fields:
  "columns (mkSettings boardColumns) = boardColumns"
  "clockColumn (mkSettings boardColumns) = ''Working''"
  "\<not> showCompletedTasks (mkSettings boardColumns)"
  by (simp_all add: mkSettings_def)

lemma board_symbols:
  "symbolToColumn boardColumns '' '' = ''TODO''"
  "symbolToColumn boardColumns ''/'' = ''Working''"
  by (simp_all add: symbolToColumn_def boardColumns_def mkColumn_def)

lemma mkRaw_symbol: "rawSymbol (mkRaw '' '') = '' ''" "rawSymbol (mkRaw ''/'') = ''/''"
  by (simp_all add: rawSymbol_def mkRaw_def orElse_def)

lemma board_keeps:
  "keepTask (mkSettings boardColumns) (toKanbanTask (mkSettings boardColumns) [] (mkRaw '' '') 0)"
  "keepTask (mkSettings boardColumns) (toKanbanTask (mkSettings boardColumns) [] (mkRaw ''/'') 0)"
  by (simp_all add: keepTask_def toKanbanTask_column boardSettings_fields mkRaw_symbol board_symbols)
     (simp_all add: boardColumns_def mkColumn_def)

lemma board_parse:
  "parseTasks (mkSettings boardColumns) [] [mkRaw '' '']
     = [toKanbanTask (mkSettings boardColumns) [] (mkRaw '' '') 0]"
  "parseTasks (mkSettings boardColumns) [] [mkRaw ''/'']
     = [toKanbanTask (mkSettings boardColumns) [] (mkRaw ''/'') 0]"
  using board_keeps by (simp_all add: parseTasks_def enumerate_eq_zip)

lemma mkRaw_task_fields:
  "sourcePath (toKanbanTask S w (mkRaw s) k) = ''f.md''"
  "lineNumber (toKanbanTask S w (mkRaw s) k) = 1"
  "description (toKanbanTask S w (mkRaw s) k) = ''Buy milk''"
  by (simp_all add: toKanbanTask_def mkRaw_def orElse_def Let_def)

lemma openVault_lines:
  "openVault ''f.md'' = Some ''# Shopping\<newline>- [ ] Buy milk\<newline>  [clock::09:00]\<newline>Next paragraph''"
  "splitLines ''# Shopping\<newline>- [ ] Buy milk\<newline>  [clock::09:00]\<newline>Next paragraph''
     = [''# Shopping'', ''- [ ] Buy milk'', ''  [clock::09:00]'', ''Next paragraph'']"
  by (simp_all add: openVault_def)

lemma workingVault_lines:
  "workingVault ''f.md'' = Some ''# Shopping\<newline>- [/] Buy milk\<newline>Next paragraph''"
  "splitLines ''# Shopping\<newline>- [/] Buy milk\<newline>Next paragraph''
     = [''# Shopping'', ''- [/] Buy milk'', ''Next paragraph'']"
  by (simp_all add: workingVault_def)

lemma driftedVault_lines:
  "driftedVault ''f.md''
     = Some ''Intro\<newline># Shopping\<newline>- [ ] Buy milk\<newline>  [clock::09:00]\<newline>Next paragraph''"
  "splitLines ''Intro\<newline># Shopping\<newline>- [ ] Buy milk\<newline>  [clock::09:00]\<newline>Next paragraph''
     = [''Intro'', ''# Shopping'', ''- [ ] Buy milk'', ''  [clock::09:00]'', ''Next paragraph'']"
  by (simp_all add: driftedVault_def)

lemma open_is_clock: "isClockLine ''  [clock::09:00]''"
  by (simp add: isClockLine_def isSpace_def) (subst clockTokens.simps, simp add: clockToken_def)

lemma open_is_open: "openClockTest ''  [clock::09:00]''"
  by (simp add: openClockTest_def execOpenClock.simps openClockAt_def isLineTerminator_def)

lemma task_not_clock: "\<not> isClockLine ''- [ ] Buy milk''"
  by (simp add: isClockLine_def isSpace_def) (subst clockTokens.simps, simp add: clockToken_def)

lemma open_resolved:
  "resolvedLine openVault (toKanbanTask S w (mkRaw s) k) = Some 1"
  by (simp add: resolvedLine_def mkRaw_task_fields openVault_lines findTaskInLines_def
        lineAt_def isTaskLine_def includes_str_def sublist_code)

lemma working_resolved:
  "resolvedLine workingVault (toKanbanTask S w (mkRaw s) k) = Some 1"
  by (simp add: resolvedLine_def mkRaw_task_fields workingVault_lines findTaskInLines_def
        lineAt_def isTaskLine_def includes_str_def sublist_code)

lemma drifted_resolved:
  "resolvedLine driftedVault (toKanbanTask S w (mkRaw s) k) = Some 2"
  by (simp add: resolvedLine_def mkRaw_task_fields driftedVault_lines findTaskInLines_def
        lineAt_def isTaskLine_def includes_str_def sublist_code scanLines.simps)

lemma open_marker:
  "openMarkerBelow openVault (toKanbanTask S w (mkRaw s) k)"
  using open_is_clock open_is_open paragraph_not_clock
  by (simp add: openMarkerBelow_def open_resolved mkRaw_task_fields openVault_lines
        annotationRun_def)

lemma working_no_marker:
  "\<not> openMarkerBelow workingVault (toKanbanTask S w (mkRaw s) k)"
  using paragraph_not_clock
  by (simp add: openMarkerBelow_def working_resolved mkRaw_task_fields workingVault_lines
        annotationRun_def)

lemma drifted_marker:
  "openMarkerBelow driftedVault (toKanbanTask S w (mkRaw s) k)"
  using open_is_clock open_is_open paragraph_not_clock
  by (simp add: openMarkerBelow_def drifted_resolved mkRaw_task_fields driftedVault_lines
        annotationRun_def)

lemma drifted_not_checked:
  "\<not> checkIfTaskIsClockedIn driftedVault (toKanbanTask S w (mkRaw s) k)"
  using task_not_clock
  by (simp add: checkIfTaskIsClockedIn_def mkRaw_task_fields driftedVault_lines)
     (subst anyOpenClock.simps, simp)

lemma working_not_checked:
  "\<not> checkIfTaskIsClockedIn workingVault (toKanbanTask S w (mkRaw s) k)"
  using checkIfTaskIsClockedIn_resolved [of workingVault "toKanbanTask S w (mkRaw s) k"]
  by (simp add: working_resolved mkRaw_task_fields working_no_marker)

text \<open>
  The claim as written fails in two ways. For a task whose symbol is the clock column's
  symbol and whose document has no interval below it, \<open>parseTasks\<close> sets \<open>isClockedIn\<close>
  because the column is the clock column, and no marker exists below the resolved line 1.
  For a task whose document gained a line above it, the Task Locator resolves line 2 and an
  open marker stands below it, but \<open>checkIfTaskIsClockedIn\<close> reads below the stale line
  number 1 and the task is left in the column of its symbol with \<open>isClockedIn = false\<close>.
\<close>

theorem loadTasks_clock_counterexample:
  "resolvedLine workingVault (toKanbanTask (mkSettings boardColumns) [] (mkRaw ''/'') 0) = Some 1
   \<and> loadTasks (mkSettings boardColumns) [] workingVault [mkRaw ''/'']
     = [toKanbanTask (mkSettings boardColumns) [] (mkRaw ''/'') 0]
   \<and> isClockedIn (toKanbanTask (mkSettings boardColumns) [] (mkRaw ''/'') 0)
   \<and> \<not> openMarkerBelow workingVault (toKanbanTask (mkSettings boardColumns) [] (mkRaw ''/'') 0)
   \<and> resolvedLine driftedVault (toKanbanTask (mkSettings boardColumns) [] (mkRaw '' '') 0) = Some 2
   \<and> openMarkerBelow driftedVault (toKanbanTask (mkSettings boardColumns) [] (mkRaw '' '') 0)
   \<and> loadTasks (mkSettings boardColumns) [] driftedVault [mkRaw '' '']
     = [toKanbanTask (mkSettings boardColumns) [] (mkRaw '' '') 0]
   \<and> column (toKanbanTask (mkSettings boardColumns) [] (mkRaw '' '') 0) = ''TODO''
   \<and> clockColumn (mkSettings boardColumns) = ''Working''
   \<and> \<not> isClockedIn (toKanbanTask (mkSettings boardColumns) [] (mkRaw '' '') 0)"
proof -
  let ?S = "mkSettings boardColumns"
  have a: "loadTasks ?S [] workingVault [mkRaw ''/''] = [toKanbanTask ?S [] (mkRaw ''/'') 0]"
    by (simp add: loadTasks_def board_parse working_not_checked)
  have b: "isClockedIn (toKanbanTask ?S [] (mkRaw ''/'') 0)"
    by (simp add: toKanbanTask_isClockedIn boardSettings_fields mkRaw_symbol board_symbols)
  have c: "loadTasks ?S [] driftedVault [mkRaw '' ''] = [toKanbanTask ?S [] (mkRaw '' '') 0]"
    by (simp add: loadTasks_def board_parse drifted_not_checked)
  have d: "column (toKanbanTask ?S [] (mkRaw '' '') 0) = ''TODO''"
    by (simp add: toKanbanTask_column boardSettings_fields mkRaw_symbol board_symbols)
  have e: "\<not> isClockedIn (toKanbanTask ?S [] (mkRaw '' '') 0)"
    by (simp add: toKanbanTask_isClockedIn boardSettings_fields mkRaw_symbol board_symbols)
       (simp add: mkRaw_def)
  from a b c d e show ?thesis
    by (simp only: working_resolved working_no_marker drifted_resolved drifted_marker
          boardSettings_fields simp_thms)
qed

theorem loadTasks_clock_witness:
  "resolvedLine openVault (parseTasks (mkSettings boardColumns) [] [mkRaw '' ''] ! 0)
     = Some (lineNumber (parseTasks (mkSettings boardColumns) [] [mkRaw '' ''] ! 0))
   \<and> column (parseTasks (mkSettings boardColumns) [] [mkRaw '' ''] ! 0) = ''TODO''
   \<and> column (loadTasks (mkSettings boardColumns) [] openVault [mkRaw '' ''] ! 0) = ''Working''
   \<and> isClockedIn (loadTasks (mkSettings boardColumns) [] openVault [mkRaw '' ''] ! 0)"
proof -
  let ?S = "mkSettings boardColumns"
  have k: "0 < length (parseTasks ?S [] [mkRaw '' ''])"
    by (simp add: board_parse)
  have current: "resolvedLine openVault (parseTasks ?S [] [mkRaw '' ''] ! 0)
                   = Some (lineNumber (parseTasks ?S [] [mkRaw '' ''] ! 0))"
    by (simp add: board_parse open_resolved mkRaw_task_fields)
  have marker: "openMarkerBelow openVault (parseTasks ?S [] [mkRaw '' ''] ! 0)"
    by (simp add: board_parse open_marker)
  from loadTasks_clock [OF k current] marker
  have "column (loadTasks ?S [] openVault [mkRaw '' ''] ! 0) = clockColumn ?S
        \<and> isClockedIn (loadTasks ?S [] openVault [mkRaw '' ''] ! 0)" by blast
  moreover have "column (parseTasks ?S [] [mkRaw '' ''] ! 0) = ''TODO''"
    by (simp add: board_parse toKanbanTask_column boardSettings_fields mkRaw_symbol board_symbols)
  ultimately show ?thesis using current by (simp add: boardSettings_fields)
qed


section \<open>Properties of the Transition Controller\<close>

lemma manageClockAction_task:
  "sourcePath (snd (manageClockAction ty ts (V, t))) = sourcePath t"
  "description (snd (manageClockAction ty ts (V, t))) = description t"
  by (simp_all add: manageClockAction_def Let_def split: option.splits sum.splits)

lemma updateTaskStatusAction_task:
  "sourcePath (snd (updateTaskStatusAction S c (V, t))) = sourcePath t"
  "column (snd (updateTaskStatusAction S c (V, t))) = column t"
  by (simp_all add: updateTaskStatusAction_def Let_def split: option.splits sum.splits)

lemma updateTaskStatusAction_reads:
  "sourcePath t' = sourcePath t \<Longrightarrow> description t' = description t \<Longrightarrow> lineNumber t' = lineNumber t
     \<Longrightarrow> fst (updateTaskStatusAction S c (V, t')) = fst (updateTaskStatusAction S c (V, t))"
  by (simp add: updateTaskStatusAction_def Let_def split: option.splits sum.splits)

lemma queueFileAction_result:
  "queueFileAction path label action (w, t)
     = (w\<lparr>vault := fst (action (vault w, t)),
           modificationQueue := (modificationQueue w)(path := modificationQueue w path @ [label])\<rparr>,
        snd (action (vault w, t)))"
  by (simp add: queueFileAction_def split_def Let_def)

text \<open>
  C4. For a transition between two different columns of which one is the clock column,
  with the automatic interval enabled: the interval action (close when the clock column is
  left, open when it is entered) is appended to the chain of the task's path before the
  status rewrite, and nothing else is appended; the document after the transition is the
  status rewrite applied to what the interval action wrote; and the task's column is the
  target column.
\<close>

theorem handleTaskMove_order:
  assumes auto: "autoClockInOut S"
    and change: "sourceColumn \<noteq> targetColumn"
    and clock: "sourceColumn = clockColumn S \<or> targetColumn = clockColumn S"
  shows "modificationQueue (fst (handleTaskMove S ts tt sourceColumn targetColumn (w, task)))
             (sourcePath task)
           = modificationQueue w (sourcePath task)
               @ [ClockEdit (if sourceColumn = clockColumn S then End else Start),
                  StatusEdit targetColumn]
         \<and> vault (fst (handleTaskMove S ts tt sourceColumn targetColumn (w, task)))
           = fst (updateTaskStatusAction S targetColumn
                    (manageClockAction (if sourceColumn = clockColumn S then End else Start) ts
                       (vault w, task)))
         \<and> column (snd (handleTaskMove S ts tt sourceColumn targetColumn (w, task))) = targetColumn"
proof (cases "sourceColumn = clockColumn S")
  case True
  with change have tgt: "targetColumn \<noteq> clockColumn S" by simp
  obtain V1 t1 where act: "manageClockAction End ts (vault w, task) = (V1, t1)"
    by (cases "manageClockAction End ts (vault w, task)")
  from manageClockAction_task [of End ts "vault w" task] act
  have t1: "sourcePath t1 = sourcePath task" "description t1 = description task" by simp_all
  let ?t3 = "t1\<lparr>isClockedIn := False, endTime := Some tt, column := targetColumn\<rparr>"
  have reads: "fst (updateTaskStatusAction S targetColumn (V1, ?t3))
                 = fst (updateTaskStatusAction S targetColumn (V1, t1))"
    by (rule updateTaskStatusAction_reads) simp_all
  have col: "column (snd (updateTaskStatusAction S targetColumn (V1, ?t3))) = targetColumn"
    by (simp add: updateTaskStatusAction_task)
  show ?thesis
    using True tgt auto act t1 reads col
    by (simp add: handleTaskMove_def clockOut_def manageClockProperty_def updateTaskStatus_def
          queueFileAction_result Let_def)
next
  case False
  with clock have tgt: "targetColumn = clockColumn S" by simp
  obtain V1 t1 where act: "manageClockAction Start ts (vault w, task) = (V1, t1)"
    by (cases "manageClockAction Start ts (vault w, task)")
  from manageClockAction_task [of Start ts "vault w" task] act
  have t1: "sourcePath t1 = sourcePath task" "description t1 = description task" by simp_all
  let ?t3 = "t1\<lparr>isClockedIn := True, startTime := Some tt, column := targetColumn\<rparr>"
  have reads: "fst (updateTaskStatusAction S targetColumn (V1, ?t3))
                 = fst (updateTaskStatusAction S targetColumn (V1, t1))"
    by (rule updateTaskStatusAction_reads) simp_all
  have col: "column (snd (updateTaskStatusAction S targetColumn (V1, ?t3))) = targetColumn"
    by (simp add: updateTaskStatusAction_task)
  show ?thesis
    using False tgt auto act t1 reads col
    by (simp add: handleTaskMove_def clockIn_def manageClockProperty_def updateTaskStatus_def
          queueFileAction_result Let_def)
qed



lemma milkTask_opened:
  "manageClockAction Start ''2026-11-02T10:00:00'' (noteVault, milkTask)
     = (noteVault(''f.md'' \<mapsto>
          ''# Shopping\<newline>- [ ] Buy milk\<newline>      [clock::2026-11-02T10:00:00]\<newline>Next paragraph''),
        milkTask\<lparr>lineNumber := 1\<rparr>)"
proof -
  let ?content = "''# Shopping\<newline>- [ ] Buy milk\<newline>Next paragraph''"
  have inVault: "noteVault (sourcePath milkTask) = Some ?content"
    by (simp only: milkTask_fields noteVault_lines)
  have found: "findTaskInLines (splitLines ?content) (description milkTask) (lineNumber milkTask)
                 = Inr (int 1)"
    by (simp only: milkTask_fields noteVault_lines milkTask_located)
  have plain: "\<not> (1 + 1 < length (splitLines ?content) \<and> isClockLine (splitLines ?content ! (1 + 1)))"
    using paragraph_not_clock by (simp only: noteVault_lines) simp
  have "manageClockStart (splitLines ?content) 1 ''2026-11-02T10:00:00''
          = [''# Shopping'', ''- [ ] Buy milk'', ''      [clock::2026-11-02T10:00:00]'', ''Next paragraph'']"
    using manageClockStart_plain [OF plain, of "''2026-11-02T10:00:00''"]
    by (simp only: noteVault_lines) (simp add: indentation_def)
  with manageClockAction_found [of noteVault milkTask ?content 1 Start "''2026-11-02T10:00:00''"]
    inVault found
  show ?thesis by (simp add: milkTask_fields)
qed

lemma opened_lines:
  "splitLines ''# Shopping\<newline>- [ ] Buy milk\<newline>      [clock::2026-11-02T10:00:00]\<newline>Next paragraph''
     = [''# Shopping'', ''- [ ] Buy milk'', ''      [clock::2026-11-02T10:00:00]'', ''Next paragraph'']"
  by simp

lemma opened_located:
  "findTaskInLines [''# Shopping'', ''- [ ] Buy milk'', ''      [clock::2026-11-02T10:00:00]'', ''Next paragraph'']
     ''Buy milk'' 1 = Inr 1"
  by (simp add: findTaskInLines_def lineAt_def isTaskLine_def includes_str_def sublist_code)

lemma working_symbol:
  "find (\<lambda>c. name c = ''Working'') (columns (mkSettings boardColumns)) = Some (mkColumn ''Working'' ''/'')"
  by (simp add: mkSettings_def boardColumns_def mkColumn_def)

lemma milk_checkbox: "replaceCheckbox ''- [ ] Buy milk'' ''- [/]'' = ''- [/] Buy milk''"
  by (simp add: replaceCheckbox_def checkboxAt_def)

lemma milkTask_rewritten:
  "fst (updateTaskStatusAction (mkSettings boardColumns) ''Working''
          (noteVault(''f.md'' \<mapsto>
             ''# Shopping\<newline>- [ ] Buy milk\<newline>      [clock::2026-11-02T10:00:00]\<newline>Next paragraph''),
           milkTask\<lparr>lineNumber := 1\<rparr>)) ''f.md''
     = Some ''# Shopping\<newline>- [/] Buy milk\<newline>      [clock::2026-11-02T10:00:00]\<newline>Next paragraph''"
proof -
  have t1: "sourcePath (milkTask\<lparr>lineNumber := 1\<rparr>) = ''f.md''"
    "description (milkTask\<lparr>lineNumber := 1\<rparr>) = ''Buy milk''"
    "lineNumber (milkTask\<lparr>lineNumber := 1\<rparr>) = 1"
    by (simp_all add: milkTask_fields)
  show ?thesis
    unfolding updateTaskStatusAction_def
    by (simp only: prod.case t1 fun_upd_same option.case Let_def
          opened_lines opened_located sum.case working_symbol)
       (simp add: mkColumn_def milk_checkbox)
qed

theorem handleTaskMove_order_witness:
  "modificationQueue
       (fst (handleTaskMove (mkSettings boardColumns) ''2026-11-02T10:00:00'' ''10:00''
               ''TODO'' ''Working'' (noteWorld, milkTask))) ''f.md''
     = [ClockEdit Start, StatusEdit ''Working'']
   \<and> vault (fst (handleTaskMove (mkSettings boardColumns) ''2026-11-02T10:00:00'' ''10:00''
               ''TODO'' ''Working'' (noteWorld, milkTask))) ''f.md''
     = Some ''# Shopping\<newline>- [/] Buy milk\<newline>      [clock::2026-11-02T10:00:00]\<newline>Next paragraph''
   \<and> column (snd (handleTaskMove (mkSettings boardColumns) ''2026-11-02T10:00:00'' ''10:00''
               ''TODO'' ''Working'' (noteWorld, milkTask))) = ''Working''"
proof -
  let ?S = "mkSettings boardColumns"
  have auto: "autoClockInOut ?S" by (simp add: mkSettings_def)
  have change: "''TODO'' \<noteq> ''Working''" by simp
  have clock: "''TODO'' = clockColumn ?S \<or> ''Working'' = clockColumn ?S"
    by (simp add: mkSettings_def)
  have ty: "(if ''TODO'' = clockColumn ?S then End else Start) = Start"
    by (simp add: mkSettings_def)
  have w: "vault noteWorld = noteVault" "modificationQueue noteWorld ''f.md'' = []"
    by (simp_all add: noteWorld_def)
  from handleTaskMove_order [OF auto change clock, of "''2026-11-02T10:00:00''" "''10:00''"
      noteWorld milkTask]
  show ?thesis
    by (simp only: ty w milkTask_opened milkTask_fields append_Nil) (simp add: milkTask_rewritten)
qed


end
